theory Spec2Isabelle
  imports Complex_Main
begin

section \<open>The node editor of cusmeStudio (vanilla variant): graph model and execution\<close>

text \<open>
  The source is one script with two classes, \<open>NodeEditor\<close> (the graph, the pointer gestures
  and the execution traversal) and \<open>Node\<close> (pin shape and compute). The embedding keeps their
  fields and methods under their own names. Canvas drawing, drag geometry and the animation
  loop read the graph and never write it; they are left out.
\<close>

subsection \<open>JavaScript values\<close>

text \<open>
  The values that reach node configs, output arrays and input arrays are numbers, strings and
  \<open>undefined\<close>. A number is a finite value, an infinity or NaN. JavaScript's \<open>-0\<close> and \<open>+0\<close> are
  both \<open>Fin 0\<close>: they are \<open>===\<close> to each other and both falsy, which is all the source tests.
\<close>

datatype number = Fin rat | PInf | NInf | NaN

datatype jsval = Undefined | Num number | Str string

text \<open>
  What the script takes from the language runtime and does not define itself: the rounding of
  an exact arithmetic result to the nearest binary64 value (which may overflow to an infinity),
  the conversion of a number to its decimal string, the conversion of a whole string to a
  number (\<open>ToNumber\<close>), and \<open>parseFloat\<close> on a string. They are parameters of the model.
\<close>

record runtime =
  round64 :: "rat \<Rightarrow> number"
  numberToString :: "number \<Rightarrow> string"
  stringToNumber :: "string \<Rightarrow> number"
  parseFloatString :: "string \<Rightarrow> number"

fun truthy :: "jsval \<Rightarrow> bool" where
  "truthy Undefined = False"
| "truthy (Num x) = (x \<noteq> NaN \<and> x \<noteq> Fin 0)"
| "truthy (Str s) = (s \<noteq> [])"

text \<open>
  \<open>parseFloat(v)\<close> converts its argument to a string and parses a decimal prefix of it.
  For a number that round trip returns the number itself; \<open>undefined\<close> becomes the
  string \<open>undefined\<close>, which has no numeric prefix.
\<close>

fun parseFloat :: "runtime \<Rightarrow> jsval \<Rightarrow> number" where
  "parseFloat rt Undefined = NaN"
| "parseFloat rt (Num x) = x"
| "parseFloat rt (Str s) = parseFloatString rt s"

text \<open>The idiom \<open>parseFloat(v) || 0\<close>: NaN and zero are falsy and give \<open>0\<close>.\<close>

definition parseFloat_or_0 :: "runtime \<Rightarrow> jsval \<Rightarrow> number" where
  "parseFloat_or_0 rt v = (let x = parseFloat rt v in if truthy (Num x) then x else Fin 0)"

fun toNumber :: "runtime \<Rightarrow> jsval \<Rightarrow> number" where
  "toNumber rt Undefined = NaN"
| "toNumber rt (Num x) = x"
| "toNumber rt (Str s) = stringToNumber rt s"

fun toString :: "runtime \<Rightarrow> jsval \<Rightarrow> string" where
  "toString rt Undefined = ''undefined''"
| "toString rt (Num x) = numberToString rt x"
| "toString rt (Str s) = s"

fun is_Str :: "jsval \<Rightarrow> bool" where
  "is_Str (Str s) = True"
| "is_Str v = False"

fun num_neg :: "number \<Rightarrow> number" where
  "num_neg (Fin x) = Fin (- x)"
| "num_neg PInf = NInf"
| "num_neg NInf = PInf"
| "num_neg NaN = NaN"

fun num_add :: "runtime \<Rightarrow> number \<Rightarrow> number \<Rightarrow> number" where
  "num_add rt NaN y = NaN"
| "num_add rt x NaN = NaN"
| "num_add rt PInf NInf = NaN"
| "num_add rt NInf PInf = NaN"
| "num_add rt PInf y = PInf"
| "num_add rt NInf y = NInf"
| "num_add rt x PInf = PInf"
| "num_add rt x NInf = NInf"
| "num_add rt (Fin x) (Fin y) = round64 rt (x + y)"

definition num_sub :: "runtime \<Rightarrow> number \<Rightarrow> number \<Rightarrow> number" where
  "num_sub rt x y = num_add rt x (num_neg y)"

text \<open>The sign of an infinite product or quotient; a zero operand counts as positive.\<close>

fun negative :: "number \<Rightarrow> bool" where
  "negative (Fin x) = (x < 0)"
| "negative PInf = False"
| "negative NInf = True"
| "negative NaN = False"

definition signed_inf :: "number \<Rightarrow> number \<Rightarrow> number" where
  "signed_inf x y = (if negative x = negative y then PInf else NInf)"

fun num_mul :: "runtime \<Rightarrow> number \<Rightarrow> number \<Rightarrow> number" where
  "num_mul rt NaN y = NaN"
| "num_mul rt x NaN = NaN"
| "num_mul rt (Fin x) (Fin y) = round64 rt (x * y)"
| "num_mul rt x y =
     (if x = Fin 0 \<or> y = Fin 0 then NaN else signed_inf x y)"

fun num_div :: "runtime \<Rightarrow> number \<Rightarrow> number \<Rightarrow> number" where
  "num_div rt NaN y = NaN"
| "num_div rt x NaN = NaN"
| "num_div rt (Fin x) (Fin y) =
     (if y = 0 then (if x = 0 then NaN else signed_inf (Fin x) (Fin y))
      else round64 rt (x / y))"
| "num_div rt (Fin x) y = Fin 0"
| "num_div rt x (Fin y) = signed_inf x (Fin y)"
| "num_div rt x y = NaN"

text \<open>
  The binary operators of the script. \<open>+\<close> concatenates once either operand is a string;
  \<open>-\<close>, \<open>*\<close> and \<open>/\<close> convert both operands to numbers.
\<close>

definition js_add :: "runtime \<Rightarrow> jsval \<Rightarrow> jsval \<Rightarrow> jsval" where
  "js_add rt a b =
     (if is_Str a \<or> is_Str b then Str (toString rt a @ toString rt b)
      else Num (num_add rt (toNumber rt a) (toNumber rt b)))"

definition js_sub :: "runtime \<Rightarrow> jsval \<Rightarrow> jsval \<Rightarrow> jsval" where
  "js_sub rt a b = Num (num_sub rt (toNumber rt a) (toNumber rt b))"

definition js_mul :: "runtime \<Rightarrow> jsval \<Rightarrow> jsval \<Rightarrow> jsval" where
  "js_mul rt a b = Num (num_mul rt (toNumber rt a) (toNumber rt b))"

definition js_div :: "runtime \<Rightarrow> jsval \<Rightarrow> jsval \<Rightarrow> jsval" where
  "js_div rt a b = Num (num_div rt (toNumber rt a) (toNumber rt b))"

subsection \<open>The class \<open>Node\<close>\<close>

text \<open>
  User-visible texts of the script are Korean; they are given as their UTF-8 bytes.
\<close>

definition title_number :: string where
  "title_number = [CHR 0xEC, CHR 0x88, CHR 0xAB, CHR 0xEC, CHR 0x9E, CHR 0x90]"

definition title_math :: string where
  "title_math = [CHR 0xEC, CHR 0x88, CHR 0x98, CHR 0xED, CHR 0x95, CHR 0x99, CHR 0x20,
     CHR 0xEC, CHR 0x97, CHR 0xB0, CHR 0xEC, CHR 0x82, CHR 0xB0]"

definition title_string :: string where
  "title_string = [CHR 0xEB, CHR 0xAC, CHR 0xB8, CHR 0xEC, CHR 0x9E, CHR 0x90,
     CHR 0xEC, CHR 0x97, CHR 0xB4]"

definition title_print :: string where
  "title_print = [CHR 0xEC, CHR 0xB6, CHR 0x9C, CHR 0xEB, CHR 0xA0, CHR 0xA5]"

definition name_value :: string where
  "name_value = [CHR 0xEA, CHR 0xB0, CHR 0x92]"

definition name_result :: string where
  "name_result = [CHR 0xEA, CHR 0xB2, CHR 0xB0, CHR 0xEA, CHR 0xB3, CHR 0xBC]"

definition name_input :: string where
  "name_input = [CHR 0xEC, CHR 0x9E, CHR 0x85, CHR 0xEB, CHR 0xA0, CHR 0xA5]"

definition text_none :: string where
  "text_none = [CHR 0xEC, CHR 0x97, CHR 0x86, CHR 0xEC, CHR 0x9D, CHR 0x8C]"

definition text_output :: string where
  "text_output = [CHR 0xEC, CHR 0xB6, CHR 0x9C, CHR 0xEB, CHR 0xA0, CHR 0xA5, CHR 0x3A, CHR 0x20]"

record pin =
  pin_name :: string
  pin_type :: string

record nodeInfo =
  title :: string
  inputs :: "pin list"
  outputs :: "pin list"

text \<open>The own properties of the object literal \<open>nodeTypes\<close> in \<open>getNodeInfo\<close>, in source order.\<close>

definition nodeTypes :: "(string \<times> nodeInfo) list" where
  "nodeTypes =
    [(''number'', \<lparr>title = title_number, inputs = [],
        outputs = [\<lparr>pin_name = name_value, pin_type = ''number''\<rparr>]\<rparr>),
     (''math'', \<lparr>title = title_math,
        inputs = [\<lparr>pin_name = ''A'', pin_type = ''number''\<rparr>,
                  \<lparr>pin_name = ''B'', pin_type = ''number''\<rparr>],
        outputs = [\<lparr>pin_name = name_result, pin_type = ''number''\<rparr>]\<rparr>),
     (''string'', \<lparr>title = title_string, inputs = [],
        outputs = [\<lparr>pin_name = name_value, pin_type = ''string''\<rparr>]\<rparr>),
     (''print'', \<lparr>title = title_print,
        inputs = [\<lparr>pin_name = name_input, pin_type = ''any''\<rparr>],
        outputs = []\<rparr>)]"

text \<open>
  \<open>nodeTypes[this.type]\<close> is a property read on an object literal: a key that is not an own
  property is looked up on \<open>Object.prototype\<close>, whose members (functions, and for
  \<open>__proto__\<close> the prototype object itself) are truthy and have neither \<open>title\<close> nor
  \<open>inputs\<close> nor \<open>outputs\<close>. Only a key found nowhere reads as \<open>undefined\<close>.
\<close>

definition Object_prototype_keys :: "string list" where
  "Object_prototype_keys =
    [''constructor'', ''__defineGetter__'', ''__defineSetter__'', ''hasOwnProperty'',
     ''__lookupGetter__'', ''__lookupSetter__'', ''isPrototypeOf'', ''propertyIsEnumerable'',
     ''toString'', ''valueOf'', ''__proto__'', ''toLocaleString'']"

datatype looked_up = Shape nodeInfo | Inherited | Missing

definition nodeTypes_get :: "string \<Rightarrow> looked_up" where
  "nodeTypes_get key =
     (case map_of nodeTypes key of
        Some info \<Rightarrow> Shape info
      | None \<Rightarrow> if key \<in> set Object_prototype_keys then Inherited else Missing)"

text \<open>\<open>return nodeTypes[this.type] || nodeTypes.number\<close>\<close>

definition getNodeInfo :: "string \<Rightarrow> looked_up" where
  "getNodeInfo type =
     (case nodeTypes_get type of Missing \<Rightarrow> nodeTypes_get ''number'' | found \<Rightarrow> found)"

datatype error = TypeError

text \<open>
  The element built by \<open>createElement\<close>, reduced to what the template fills in from the node
  info: the header text and one labelled pin per input and per output. \<open>nodeInfo.inputs.length\<close>
  and \<open>nodeInfo.outputs.length\<close> throw when \<open>inputs\<close> or \<open>outputs\<close> is \<open>undefined\<close>.
\<close>

record element =
  header :: string
  input_pins :: "string list"
  output_pins :: "string list"

fun createInputs :: "looked_up \<Rightarrow> error + string list" where
  "createInputs (Shape info) = Inr (map pin_name (inputs info))"
| "createInputs other = Inl TypeError"

fun createOutputs :: "looked_up \<Rightarrow> error + string list" where
  "createOutputs (Shape info) = Inr (map pin_name (outputs info))"
| "createOutputs other = Inl TypeError"

fun info_title :: "looked_up \<Rightarrow> string" where
  "info_title (Shape info) = title info"
| "info_title other = ''undefined''"

definition createElement :: "string \<Rightarrow> error + element" where
  "createElement type =
     (let nodeInfo = getNodeInfo type in
      case createInputs nodeInfo of
        Inl e \<Rightarrow> Inl e
      | Inr ins \<Rightarrow>
          (case createOutputs nodeInfo of
             Inl e \<Rightarrow> Inl e
           | Inr outs \<Rightarrow>
               Inr \<lparr>header = info_title nodeInfo, input_pins = ins, output_pins = outs\<rparr>))"

text \<open>
  A node object. \<open>config\<close> is the bag of parameters handed to the constructor: a property the
  bag does not have reads as \<open>undefined\<close>. \<open>outputValues\<close> is a JavaScript array.
\<close>

record node =
  node_id :: nat
  node_type :: string
  config :: "string \<Rightarrow> jsval"
  element :: element
  outputValues :: "jsval list"

text \<open>The constructor \<open>new Node(id, type, config)\<close>; it throws what \<open>createElement\<close> throws.\<close>

definition Node :: "nat \<Rightarrow> string \<Rightarrow> (string \<Rightarrow> jsval) \<Rightarrow> error + node" where
  "Node i type cfg =
     (case createElement type of
        Inl e \<Rightarrow> Inl e
      | Inr el \<Rightarrow>
          Inr \<lparr>node_id = i, node_type = type, config = cfg, element = el, outputValues = []\<rparr>)"

definition reset :: "node \<Rightarrow> node" where
  "reset n = n\<lparr>outputValues := []\<rparr>"

text \<open>\<open>this.outputValues[index]\<close>: reading past the end of an array gives \<open>undefined\<close>.\<close>

definition getOutput :: "node \<Rightarrow> nat \<Rightarrow> jsval" where
  "getOutput n index =
     (if index < length (outputValues n) then outputValues n ! index else Undefined)"

text \<open>\<open>this.outputValues[0] = v\<close>: writing index 0 of an empty array appends.\<close>

fun assign0 :: "jsval list \<Rightarrow> jsval \<Rightarrow> jsval list" where
  "assign0 [] v = [v]"
| "assign0 (x # xs) v = v # xs"

text \<open>
  \<open>execute(inputs)\<close>. The argument is the array built by \<open>getNodeInputs\<close>, read as a function
  from index to value (a hole or an index past the end is \<open>undefined\<close>). The result is the
  node after the call and the lines the call passes to \<open>editor.log\<close>, each with its type.
\<close>

definition math_result :: "runtime \<Rightarrow> jsval \<Rightarrow> jsval \<Rightarrow> jsval \<Rightarrow> jsval" where
  "math_result rt operation a b =
     (if operation = Str ''add'' then js_add rt a b
      else if operation = Str ''subtract'' then js_sub rt a b
      else if operation = Str ''multiply'' then js_mul rt a b
      else if operation = Str ''divide'' then
        (if b \<noteq> Num (Fin 0) then js_div rt a b else Num (Fin 0))
      else Num (Fin 0))"

definition execute :: "runtime \<Rightarrow> node \<Rightarrow> (nat \<Rightarrow> jsval) \<Rightarrow> node \<times> (string \<times> string) list" where
  "execute rt n ins =
     (if node_type n = ''number'' then
        (n\<lparr>outputValues := assign0 (outputValues n)
              (Num (parseFloat_or_0 rt (config n ''value'')))\<rparr>, [])
      else if node_type n = ''math'' then
        (let a = (if ins 0 \<noteq> Undefined then ins 0
                  else Num (parseFloat_or_0 rt (config n ''valueA'')));
             b = (if ins 1 \<noteq> Undefined then ins 1
                  else Num (parseFloat_or_0 rt (config n ''valueB'')));
             operation = (if truthy (config n ''operation'') then config n ''operation''
                          else Str ''add'')
         in (n\<lparr>outputValues := assign0 (outputValues n) (math_result rt operation a b)\<rparr>, []))
      else if node_type n = ''string'' then
        (n\<lparr>outputValues := assign0 (outputValues n)
              (if truthy (config n ''value'') then config n ''value'' else Str ''Hello'')\<rparr>, [])
      else if node_type n = ''print'' then
        (let inputValue = (if ins 0 \<noteq> Undefined then ins 0 else Str text_none)
         in (n, [(text_output @ toString rt inputValue, ''info'')]))
      else (n, []))"

subsection \<open>The class \<open>NodeEditor\<close>\<close>

text \<open>
  Node objects are compared and shared by reference: the node list and the connections hold
  references, and \<open>execute\<close> writes into the object that the connections of other nodes read.
  The objects live in \<open>store\<close>, addressed by reference. A node's element is created by its
  constructor and belongs to that node alone, so an element is named by the reference of its node.
  The fields that only serve dragging and drawing (\<open>dragging\<close>, \<open>canvas\<close>,
  \<open>nodeContainer\<close>) have no counterpart.
\<close>

type_synonym ref = nat

record connection =
  conn_id :: nat
  fromNode :: ref
  fromPin :: nat
  toNode :: ref
  toPin :: nat

datatype pinType = Input | Output

record connectionStart =
  start_node :: ref
  start_pinType :: pinType
  start_pinIndex :: nat

record editor =
  store :: "ref \<Rightarrow> node"
  nodes :: "ref list"
  connections :: "connection list"
  selectedNode :: "ref option"
  connecting :: bool
  connectionStart :: "connectionStart option"
  nodeIdCounter :: nat
  connectionIdCounter :: nat
  outputDiv :: "(string \<times> string) list"

definition text_started :: string where
  "text_started = [CHR 0x3D, CHR 0x3D, CHR 0x3D, CHR 0x20, CHR 0xEA, CHR 0xB7, CHR 0xB8,
     CHR 0xEB, CHR 0x9E, CHR 0x98, CHR 0xED, CHR 0x94, CHR 0x84, CHR 0x20, CHR 0xEC, CHR 0x8B,
     CHR 0xA4, CHR 0xED, CHR 0x96, CHR 0x89, CHR 0x20, CHR 0xEC, CHR 0x8B, CHR 0x9C, CHR 0xEC,
     CHR 0x9E, CHR 0x91, CHR 0x20, CHR 0x3D, CHR 0x3D, CHR 0x3D]"

definition text_finished :: string where
  "text_finished = [CHR 0x3D, CHR 0x3D, CHR 0x3D, CHR 0x20, CHR 0xEA, CHR 0xB7, CHR 0xB8,
     CHR 0xEB, CHR 0x9E, CHR 0x98, CHR 0xED, CHR 0x94, CHR 0x84, CHR 0x20, CHR 0xEC, CHR 0x8B,
     CHR 0xA4, CHR 0xED, CHR 0x96, CHR 0x89, CHR 0x20, CHR 0xEC, CHR 0x99, CHR 0x84, CHR 0xEB,
     CHR 0xA3, CHR 0x8C, CHR 0x20, CHR 0x3D, CHR 0x3D, CHR 0x3D]"

definition text_taken :: string where
  "text_taken = [CHR 0xEC, CHR 0x9D, CHR 0xB4, CHR 0x20, CHR 0xEC, CHR 0x9E, CHR 0x85,
     CHR 0xEB, CHR 0xA0, CHR 0xA5, CHR 0x20, CHR 0xED, CHR 0x95, CHR 0x80, CHR 0xEC, CHR 0x9D,
     CHR 0x80, CHR 0x20, CHR 0xEC, CHR 0x9D, CHR 0xB4, CHR 0xEB, CHR 0xAF, CHR 0xB8, CHR 0x20,
     CHR 0xEC, CHR 0x97, CHR 0xB0, CHR 0xEA, CHR 0xB2, CHR 0xB0, CHR 0xEB, CHR 0x90, CHR 0x98,
     CHR 0xEC, CHR 0x96, CHR 0xB4, CHR 0x20, CHR 0xEC, CHR 0x9E, CHR 0x88, CHR 0xEC, CHR 0x8A,
     CHR 0xB5, CHR 0xEB, CHR 0x8B, CHR 0x88, CHR 0xEB, CHR 0x8B, CHR 0xA4, CHR 0x2E]"

definition text_cleared :: string where
  "text_cleared = [CHR 0xEB, CHR 0xAA, CHR 0xA8, CHR 0xEB, CHR 0x93, CHR 0xA0, CHR 0x20,
     CHR 0xEB, CHR 0x85, CHR 0xB8, CHR 0xEB, CHR 0x93, CHR 0x9C, CHR 0xEA, CHR 0xB0, CHR 0x80,
     CHR 0x20, CHR 0xEC, CHR 0x82, CHR 0xAD, CHR 0xEC, CHR 0xA0, CHR 0x9C, CHR 0xEB, CHR 0x90,
     CHR 0x98, CHR 0xEC, CHR 0x97, CHR 0x88, CHR 0xEC, CHR 0x8A, CHR 0xB5, CHR 0xEB, CHR 0x8B,
     CHR 0x88, CHR 0xEB, CHR 0x8B, CHR 0xA4, CHR 0x2E]"

text \<open>
  The constructor. No reference exists yet, so what the store holds is never read; it is given
  as a node without type, config or outputs.
\<close>

definition blank_node :: node where
  "blank_node = \<lparr>node_id = 0, node_type = [], config = (\<lambda>key. Undefined),
     element = \<lparr>header = [], input_pins = [], output_pins = []\<rparr>, outputValues = []\<rparr>"

definition NodeEditor :: editor where
  "NodeEditor = \<lparr>store = (\<lambda>r. blank_node), nodes = [], connections = [],
     selectedNode = None, connecting = False, connectionStart = None,
     nodeIdCounter = 0, connectionIdCounter = 0, outputDiv = []\<rparr>"

text \<open>
  \<open>log(message, type)\<close> appends a line to the output element. The line's clock-time prefix
  is not represented.
\<close>

definition log_line :: "editor \<Rightarrow> string \<Rightarrow> string \<Rightarrow> editor" where
  "log_line s message type = s\<lparr>outputDiv := outputDiv s @ [(message, type)]\<rparr>"

text \<open>
  \<open>addNode(type, config)\<close>. The counter is advanced before the constructor runs, so it stays
  advanced when the constructor throws. The object created by the call that reads counter
  value \<open>i\<close> is the object at reference \<open>i\<close>.
\<close>

definition addNode :: "editor \<Rightarrow> string \<Rightarrow> (string \<Rightarrow> jsval) \<Rightarrow> editor \<times> error option" where
  "addNode s type cfg =
     (let i = nodeIdCounter s; s1 = s\<lparr>nodeIdCounter := i + 1\<rparr> in
      case Node i type cfg of
        Inl e \<Rightarrow> (s1, Some e)
      | Inr n \<Rightarrow> (s1\<lparr>store := (store s1)(i := n), nodes := nodes s1 @ [i]\<rparr>, None))"

definition deselectAll :: "editor \<Rightarrow> editor" where
  "deselectAll s = s\<lparr>selectedNode := None\<rparr>"

definition selectNode :: "editor \<Rightarrow> ref \<Rightarrow> editor" where
  "selectNode s nodeElement = (deselectAll s)\<lparr>selectedNode := Some nodeElement\<rparr>"

text \<open>
  \<open>startConnection(e)\<close>: the pressed connector is given by the node whose element contains it,
  the side it is on and its index among the connectors of that side.
\<close>

definition startConnection :: "editor \<Rightarrow> ref \<Rightarrow> pinType \<Rightarrow> nat \<Rightarrow> editor" where
  "startConnection s n pt pinIndex =
     s\<lparr>connecting := True,
       connectionStart := Some \<lparr>start_node = n, start_pinType = pt, start_pinIndex = pinIndex\<rparr>\<rparr>"

definition createConnection :: "editor \<Rightarrow> ref \<Rightarrow> nat \<Rightarrow> ref \<Rightarrow> nat \<Rightarrow> editor" where
  "createConnection s fromNode' fromPin' toNode' toPin' =
     (let exists = list_ex (\<lambda>conn. fromNode conn = fromNode' \<and> fromPin conn = fromPin' \<and>
                               toNode conn = toNode' \<and> toPin conn = toPin') (connections s) in
      if exists then s
      else
        let inputTaken = list_ex (\<lambda>conn. toNode conn = toNode' \<and> toPin conn = toPin')
                           (connections s) in
        if inputTaken then log_line s text_taken ''error''
        else
          let connection = \<lparr>conn_id = connectionIdCounter s, fromNode = fromNode',
                            fromPin = fromPin', toNode = toNode', toPin = toPin'\<rparr>
          in s\<lparr>connectionIdCounter := connectionIdCounter s + 1,
               connections := connections s @ [connection]\<rparr>)"

text \<open>
  \<open>endConnection(e)\<close>. The event target is either a pin connector, given like the pressed one
  by the element that contains it, its side and its index, or anything else.
\<close>

datatype target = PinConnector ref pinType nat | Elsewhere

definition endConnection :: "editor \<Rightarrow> target \<Rightarrow> editor" where
  "endConnection s tgt =
     (case (connecting s, connectionStart s) of
        (True, Some start) \<Rightarrow>
          (let s1 =
             (case tgt of
                PinConnector nodeElement targetPinType targetPinIndex \<Rightarrow>
                  if nodeElement \<in> set (nodes s) \<and> start_node start \<noteq> nodeElement \<and>
                     start_pinType start \<noteq> targetPinType
                  then
                    (let out = (start_pinType start = Output);
                         fromNode' = (if out then start_node start else nodeElement);
                         toNode' = (if out then nodeElement else start_node start);
                         fromPin' = (if out then start_pinIndex start else targetPinIndex);
                         toPin' = (if out then targetPinIndex else start_pinIndex start)
                     in createConnection s fromNode' fromPin' toNode' toPin')
                  else s
              | Elsewhere \<Rightarrow> s)
           in s1\<lparr>connecting := False, connectionStart := None\<rparr>)
      | other \<Rightarrow> s\<lparr>connecting := False, connectionStart := None\<rparr>)"

definition deleteConnection :: "editor \<Rightarrow> nat \<Rightarrow> editor" where
  "deleteConnection s connectionId =
     s\<lparr>connections := filter (\<lambda>conn. conn_id conn \<noteq> connectionId) (connections s)\<rparr>"

text \<open>\<open>deleteNode(nodeElement)\<close> returns at once when no node of the list owns the element.\<close>

definition deleteNode :: "editor \<Rightarrow> ref \<Rightarrow> editor" where
  "deleteNode s nodeElement =
     (if nodeElement \<notin> set (nodes s) then s
      else
        deselectAll
          (s\<lparr>connections := filter (\<lambda>conn. fromNode conn \<noteq> nodeElement \<and>
                                           toNode conn \<noteq> nodeElement) (connections s),
             nodes := filter (\<lambda>n. n \<noteq> nodeElement) (nodes s)\<rparr>))"

definition clearAll :: "editor \<Rightarrow> editor" where
  "clearAll s = log_line (s\<lparr>nodes := [], connections := []\<rparr>) text_cleared ''info''"

subsection \<open>Graph execution\<close>

text \<open>
  \<open>getNodeInputs(node)\<close> fills an array at the target pin indices, in connection order.
\<close>

definition getNodeInputs :: "editor \<Rightarrow> ref \<Rightarrow> nat \<Rightarrow> jsval" where
  "getNodeInputs s n =
     fold (\<lambda>conn ins. ins(toPin conn := getOutput (store s (fromNode conn)) (fromPin conn)))
       (filter (\<lambda>conn. toNode conn = n) (connections s)) (\<lambda>index. Undefined)"

text \<open>
  What the closure \<open>executeNode\<close> inside \<open>executeGraph\<close> reads and writes: the editor, and the
  set \<open>executed\<close>. \<open>calls\<close> is not a variable of the script: it lists the invocations of
  \<open>Node.execute\<close> in order, each with the inputs it was given, so that statements about how
  often and on what compute runs can be written down.

  \<open>executeNode\<close> calls itself once per outgoing connection. The first argument bounds the
  depth of that nesting; \<open>None\<close> means the bound was too small.
\<close>

record run =
  this :: editor
  executed :: "ref set"
  calls :: "(ref \<times> (nat \<Rightarrow> jsval)) list"

text \<open>
  The statements of \<open>executeNode\<close> between the \<open>executed.has\<close> test and the loop over the
  outgoing connections: gather the inputs, call \<open>execute\<close>, add the node to \<open>executed\<close>.
\<close>

definition executeNode_body :: "runtime \<Rightarrow> ref \<Rightarrow> run \<Rightarrow> run" where
  "executeNode_body rt n r =
     (let ins = getNodeInputs (this r) n;
          (n', lines) = execute rt (store (this r) n) ins;
          s' = (this r)\<lparr>store := (store (this r))(n := n'),
                         outputDiv := outputDiv (this r) @ lines\<rparr>
      in r\<lparr>this := s', executed := insert n (executed r), calls := calls r @ [(n, ins)]\<rparr>)"

fun executeNode :: "nat \<Rightarrow> runtime \<Rightarrow> ref \<Rightarrow> run \<Rightarrow> run option"
  and executeEach :: "nat \<Rightarrow> runtime \<Rightarrow> connection list \<Rightarrow> run \<Rightarrow> run option" where
  "executeNode 0 rt n r = None"
| "executeNode (Suc depth) rt n r =
     (if n \<in> executed r then Some r
      else
        let r' = executeNode_body rt n r
        in executeEach depth rt (filter (\<lambda>conn. fromNode conn = n) (connections (this r'))) r')"
| "executeEach depth rt [] r = Some r"
| "executeEach depth rt (conn # conns) r =
     (case executeNode depth rt (toNode conn) r of
        None \<Rightarrow> None
      | Some r' \<Rightarrow> executeEach depth rt conns r')"

text \<open>The loop \<open>this.nodes.forEach(node => { if (!executed.has(node)) executeNode(node) })\<close>.\<close>

fun executeAll :: "nat \<Rightarrow> runtime \<Rightarrow> ref list \<Rightarrow> run \<Rightarrow> run option" where
  "executeAll depth rt [] r = Some r"
| "executeAll depth rt (n # ns) r =
     (if n \<notin> executed r then
        (case executeNode depth rt n r of
           None \<Rightarrow> None
         | Some r' \<Rightarrow> executeAll depth rt ns r')
      else executeAll depth rt ns r)"

definition resetAll :: "editor \<Rightarrow> editor" where
  "resetAll s = s\<lparr>store := fold (\<lambda>n h. h(n := reset (h n))) (nodes s) (store s)\<rparr>"

definition executeGraph_run :: "nat \<Rightarrow> runtime \<Rightarrow> editor \<Rightarrow> run option" where
  "executeGraph_run depth rt s =
     (let s1 = resetAll (log_line s text_started ''info'')
      in executeAll depth rt (nodes s1) \<lparr>this = s1, executed = {}, calls = []\<rparr>)"

definition executeGraph :: "nat \<Rightarrow> runtime \<Rightarrow> editor \<Rightarrow> editor option" where
  "executeGraph depth rt s =
     (case executeGraph_run depth rt s of
        None \<Rightarrow> None
      | Some r \<Rightarrow> Some (log_line (this r) text_finished ''info''))"

subsection \<open>Notions used in the statements\<close>

text \<open>The connections that arrive at input pin \<open>p\<close> of node \<open>n\<close>.\<close>

definition incoming :: "connection list \<Rightarrow> ref \<Rightarrow> nat \<Rightarrow> connection list" where
  "incoming conns n p = filter (\<lambda>conn. toNode conn = n \<and> toPin conn = p) conns"

text \<open>A sequence of \<open>createConnection\<close> calls, each given by its four arguments.\<close>

fun createConnections :: "editor \<Rightarrow> (ref \<times> nat \<times> ref \<times> nat) list \<Rightarrow> editor" where
  "createConnections s [] = s"
| "createConnections s ((f, fp, t, tp) # rest) =
     createConnections (createConnection s f fp t tp) rest"

text \<open>The connections with a given quadruple of endpoints.\<close>

definition with_tuple :: "connection list \<Rightarrow> ref \<Rightarrow> nat \<Rightarrow> ref \<Rightarrow> nat \<Rightarrow> connection list" where
  "with_tuple conns f fp t tp =
     filter (\<lambda>conn. fromNode conn = f \<and> fromPin conn = fp \<and> toNode conn = t \<and> toPin conn = tp)
       conns"

definition no_self_loop :: "connection list \<Rightarrow> bool" where
  "no_self_loop conns = list_all (\<lambda>conn. fromNode conn \<noteq> toNode conn) conns"

text \<open>
  A sequence of connection gestures: a press on a connector (\<open>startConnection\<close>) followed by
  a release (\<open>endConnection\<close>).
\<close>

fun connectGestures :: "editor \<Rightarrow> ((ref \<times> pinType \<times> nat) \<times> target) list \<Rightarrow> editor" where
  "connectGestures s [] = s"
| "connectGestures s (((n, pt, i), tgt) # rest) =
     connectGestures (endConnection (startConnection s n pt i) tgt) rest"

text \<open>Every endpoint of every connection is a node of the node list.\<close>

definition referential_integrity :: "editor \<Rightarrow> bool" where
  "referential_integrity s =
     list_all (\<lambda>conn. fromNode conn \<in> set (nodes s) \<and> toNode conn \<in> set (nodes s))
       (connections s)"

definition references :: "connection \<Rightarrow> ref \<Rightarrow> bool" where
  "references conn n = (fromNode conn = n \<or> toNode conn = n)"

text \<open>The node types with a case in \<open>execute\<close> and an entry in \<open>nodeTypes\<close>.\<close>

definition known_types :: "string list" where
  "known_types = [''number'', ''math'', ''string'', ''print'']"

text \<open>
  The inputs a math node computes with: an \<open>undefined\<close> at index 0 or 1 is replaced by the
  node's own \<open>valueA\<close> or \<open>valueB\<close>, coerced by \<open>parseFloat(...) || 0\<close>.
\<close>

definition math_inputs :: "runtime \<Rightarrow> node \<Rightarrow> (nat \<Rightarrow> jsval) \<Rightarrow> nat \<Rightarrow> jsval" where
  "math_inputs rt n ins =
     ins(0 := (if ins 0 = Undefined then Num (parseFloat_or_0 rt (config n ''valueA'')) else ins 0),
         1 := (if ins 1 = Undefined then Num (parseFloat_or_0 rt (config n ''valueB'')) else ins 1))"

subsection \<open>Example graphs\<close>

text \<open>A config object written as the list of its properties.\<close>

definition object :: "(string \<times> jsval) list \<Rightarrow> string \<Rightarrow> jsval" where
  "object props key = (case map_of props key of Some v \<Rightarrow> v | None \<Rightarrow> Undefined)"

text \<open>
  Two number nodes (references 0 and 1) and a print node (reference 2), added with the
  configs the toolbar buttons pass.
\<close>

definition two_numbers_print :: editor where
  "two_numbers_print =
     fst (addNode (fst (addNode (fst (addNode NodeEditor
       ''number'' (object [(''value'', Num (Fin 0))])))
       ''number'' (object [(''value'', Num (Fin 0))])))
       ''print'' (object []))"

text \<open>A single math node (reference 0).\<close>

definition one_math :: editor where
  "one_math = fst (addNode NodeEditor ''math'' (object [(''operation'', Str ''add'')]))"

text \<open>The same graph with number node 0 connected to the print node.\<close>

definition number_to_print :: editor where
  "number_to_print = createConnection two_numbers_print 0 0 2 0"

text \<open>
  A runtime for the examples, whose numbers are all exactly representable: nothing is rounded.
  Its string conversions are placeholders; no example reaches them.
\<close>

definition exact_runtime :: runtime where
  "exact_runtime = \<lparr>round64 = Fin, numberToString = (\<lambda>x. []), stringToNumber = (\<lambda>s. NaN),
     parseFloatString = (\<lambda>s. NaN)\<rparr>"

text \<open>A math node with both inline values set, as \<open>execute\<close> finds it after a reset.\<close>

definition math_3_4 :: "string \<Rightarrow> node" where
  "math_3_4 operation =
     \<lparr>node_id = 0, node_type = ''math'',
      config = object [(''operation'', Str operation), (''valueA'', Num (Fin 3)),
                       (''valueB'', Num (Fin 4))],
      element = \<lparr>header = title_math, input_pins = [''A'', ''B''], output_pins = [name_result]\<rparr>,
      outputValues = []\<rparr>"

definition math_3_0 :: "string \<Rightarrow> node" where
  "math_3_0 operation =
     (math_3_4 operation)\<lparr>config := object [(''operation'', Str operation),
        (''valueA'', Num (Fin 3)), (''valueB'', Num (Fin 0))]\<rparr>"

text \<open>Two math nodes (references 0 and 1), each feeding input A of the other: a cycle.\<close>

definition cycle_graph :: editor where
  "cycle_graph =
     createConnection (createConnection
       (fst (addNode (fst (addNode NodeEditor
          ''math'' (object [(''operation'', Str ''add'')])))
          ''math'' (object [(''operation'', Str ''add'')])))
       0 0 1 0) 1 0 0 0"

text \<open>
  A math node added first (reference 0) and a number node with value 10 added second
  (reference 1), with the number's output connected to input A of the math node: the
  consumer precedes its producer in the node list, and nothing else leads to the producer.
\<close>

definition hazard_graph :: editor where
  "hazard_graph =
     createConnection
       (fst (addNode (fst (addNode NodeEditor
          ''math'' (object [(''operation'', Str ''add'')])))
          ''number'' (object [(''value'', Num (Fin 10))])))
       1 0 0 0"

subsection \<open>Notions for the execution\<close>

text \<open>The nodes a run can reach: those of the node list and those a connection leads to.\<close>

definition targets :: "editor \<Rightarrow> ref set" where
  "targets s = set (nodes s) \<union> toNode ` set (connections s)"

text \<open>
  \<open>s'\<close> differs from \<open>s\<close> at most in the \<open>outputValues\<close> of node objects and by further lines
  at the end of the output element.
\<close>

definition only_outputs_differ :: "editor \<Rightarrow> editor \<Rightarrow> bool" where
  "only_outputs_differ s s' \<longleftrightarrow>
     s' = s\<lparr>store := store s', outputDiv := outputDiv s'\<rparr> \<and>
     (\<forall>x. store s' x = (store s x)\<lparr>outputValues := outputValues (store s' x)\<rparr>) \<and>
     (\<exists>lines. outputDiv s' = outputDiv s @ lines)"

text \<open>
  \<open>r'\<close> continues the run \<open>r\<close>: \<open>executed\<close> has grown, exactly the nodes added to it were
  computed, each once, and only their objects were written.
\<close>

definition advances :: "run \<Rightarrow> run \<Rightarrow> bool" where
  "advances r r' \<longleftrightarrow>
     only_outputs_differ (this r) (this r') \<and>
     executed r \<subseteq> executed r' \<and>
     (\<forall>x. x \<notin> executed r' - executed r \<longrightarrow> store (this r') x = store (this r) x) \<and>
     (\<exists>new. calls r' = calls r @ new \<and> distinct (map fst new) \<and>
            set (map fst new) = executed r' - executed r)"

text \<open>\<open>m\<close> is the node object \<open>n\<close>, possibly after a call of \<open>execute\<close>.\<close>

definition rewritten :: "runtime \<Rightarrow> node \<Rightarrow> node \<Rightarrow> bool" where
  "rewritten rt n m \<longleftrightarrow> m = n \<or> (\<exists>ins. m = fst (execute rt n ins))"

text \<open>
  Two runs that agree on what the traversal reads: the connections, \<open>executed\<close>, and the node
  objects, except that an object in \<open>X\<close> that is still to be computed may have been through
  an \<open>execute\<close> in the second run already.
\<close>

definition agree_but :: "runtime \<Rightarrow> ref set \<Rightarrow> run \<Rightarrow> run \<Rightarrow> bool" where
  "agree_but rt X r1 r2 \<longleftrightarrow>
     connections (this r1) = connections (this r2) \<and> executed r1 = executed r2 \<and>
     (\<forall>x. store (this r2) x = store (this r1) x \<or>
          x \<in> X \<and> x \<notin> executed r1 \<and> rewritten rt (store (this r1) x) (store (this r2) x))"

section \<open>Properties\<close>

subsection \<open>Creating connections\<close>

lemma list_ex_incoming:
  "list_ex (\<lambda>conn. toNode conn = n \<and> toPin conn = p) conns = (incoming conns n p \<noteq> [])"
  by (induction conns) (auto simp: incoming_def)

text \<open>
  The two rejections of \<open>createConnection\<close> collapse for the connection list: an identical
  connection occupies the input pin, so the list changes exactly when the pin was free.
\<close>

lemma createConnection_connections:
  "connections (createConnection s f fp t tp) =
     (if incoming (connections s) t tp \<noteq> [] then connections s
      else connections s @ [\<lparr>conn_id = connectionIdCounter s, fromNode = f, fromPin = fp,
                               toNode = t, toPin = tp\<rparr>])"
proof -
  have "list_ex (\<lambda>conn. fromNode conn = f \<and> fromPin conn = fp \<and> toNode conn = t \<and>
                          toPin conn = tp) (connections s)
        \<Longrightarrow> incoming (connections s) t tp \<noteq> []"
    by (auto simp: list_ex_iff incoming_def filter_empty_conv)
  then show ?thesis
    by (auto simp: createConnection_def Let_def list_ex_incoming log_line_def)
qed

lemma createConnection_fan_in_step:
  assumes "\<forall>n p. length (incoming (connections s) n p) \<le> 1"
  shows "length (incoming (connections (createConnection s f fp t tp)) n p) \<le> 1"
  using assms by (auto simp: createConnection_connections) (auto simp: incoming_def)

lemma createConnections_fan_in_all:
  "\<forall>n p. length (incoming (connections s) n p) \<le> 1 \<Longrightarrow>
   length (incoming (connections (createConnections s cs)) n p) \<le> 1"
proof (induction s cs rule: createConnections.induct)
  case (1 s)
  then show ?case by simp
next
  case (2 s f fp t tp rest)
  have "\<forall>n p. length (incoming (connections (createConnection s f fp t tp)) n p) \<le> 1"
    using 2(2) createConnection_fan_in_step by blast
  then show ?case using 2(1) by simp
qed

lemma createConnection_occupied:
  assumes "incoming (connections s) t tp \<noteq> []"
  shows "createConnection s f fp t tp = s \<or>
         createConnection s f fp t tp = log_line s text_taken ''error''"
  using assms by (auto simp: createConnection_def Let_def list_ex_incoming)

text \<open>
  C1. Fan-in: when every input pin has at most one incoming connection (as in the editor the
  constructor builds, which has none), the same holds after any sequence of \<open>createConnection\<close>
  calls; and a call onto an input pin that already has an incoming connection is rejected: the
  connection list stays as it was, and the editor is unchanged but for the error line that is
  logged unless the very same connection exists.
\<close>

theorem createConnection_fan_in:
  "((\<forall>n p. length (incoming (connections s) n p) \<le> 1) \<longrightarrow>
      length (incoming (connections (createConnections s cs)) n p) \<le> 1) \<and>
   (incoming (connections s') t tp \<noteq> [] \<longrightarrow>
      connections (createConnection s' f fp t tp) = connections s' \<and>
      (createConnection s' f fp t tp = s' \<or>
       createConnection s' f fp t tp = log_line s' text_taken ''error''))"
  using createConnections_fan_in_all [of s cs n p] createConnection_occupied [of s' t tp f fp]
  by (simp add: createConnection_connections)

theorem createConnection_fan_in_witness:
  "(\<forall>n p. length (incoming (connections NodeEditor) n p) \<le> 1) \<and>
   length (incoming (connections (createConnections NodeEditor
     [(0, 0, 2, 0), (1, 0, 2, 0), (1, 0, 2, 1)])) 2 0) \<le> 1 \<and>
   incoming (connections (createConnection NodeEditor 0 0 2 0)) 2 0 \<noteq> [] \<and>
   connections (createConnection (createConnection NodeEditor 0 0 2 0) 1 0 2 0) =
     connections (createConnection NodeEditor 0 0 2 0)"
proof -
  have h1: "\<forall>n p. length (incoming (connections NodeEditor) n p) \<le> 1"
    by (simp add: NodeEditor_def incoming_def)
  have h2: "incoming (connections (createConnection NodeEditor 0 0 2 0)) 2 0 \<noteq> []"
    by (simp add: NodeEditor_def incoming_def createConnection_def)
  show ?thesis
    using h1 h2 createConnection_fan_in [of NodeEditor
        "[(0, 0, 2, 0), (1, 0, 2, 0), (1, 0, 2, 1)]" 2 0
        "createConnection NodeEditor 0 0 2 0" 2 0 1 0]
    by blast
qed

lemma with_tuple_incoming: "incoming conns t tp = [] \<Longrightarrow> with_tuple conns f fp t tp = []"
  by (auto simp: incoming_def with_tuple_def filter_empty_conv)

text \<open>
  C5, as stated, fails where the input pin is held by a connection from another output: both
  calls are rejected and no connection with the tuple exists. Here pin 0 of the print node
  is fed by number node 0, and number node 1 is connected to it twice.
\<close>

theorem createConnection_twice_counterexample:
  "length (with_tuple (connections (createConnection (createConnection
      (createConnection two_numbers_print 0 0 2 0) 1 0 2 0) 1 0 2 0)) 1 0 2 0) \<noteq> 1"
  by (simp add: two_numbers_print_def addNode_def Node_def createElement_def getNodeInfo_def
      nodeTypes_get_def nodeTypes_def NodeEditor_def createConnection_def log_line_def with_tuple_def)

text \<open>
  C5 (amended). Calling \<open>createConnection\<close> twice with the same tuple: the second call leaves
  the connection list as the first call left it. When the input pin had no incoming connection
  before the first call, the list then holds exactly one connection with the tuple and the
  second call changes nothing in the editor. When the pin was occupied, neither call changes
  the list.
\<close>

theorem createConnection_twice:
  "connections (createConnection (createConnection s f fp t tp) f fp t tp) =
     connections (createConnection s f fp t tp) \<and>
   (incoming (connections s) t tp = [] \<longrightarrow>
      length (with_tuple (connections (createConnection (createConnection s f fp t tp) f fp t tp))
        f fp t tp) = 1 \<and>
      createConnection (createConnection s f fp t tp) f fp t tp = createConnection s f fp t tp) \<and>
   (incoming (connections s) t tp \<noteq> [] \<longrightarrow>
      connections (createConnection (createConnection s f fp t tp) f fp t tp) = connections s)"
proof (intro conjI impI)
  show "connections (createConnection (createConnection s f fp t tp) f fp t tp) =
     connections (createConnection s f fp t tp)"
    by (simp add: createConnection_connections incoming_def)
next
  assume free: "incoming (connections s) t tp = []"
  then have "with_tuple (connections s) f fp t tp = []" by (rule with_tuple_incoming)
  with free show "length (with_tuple (connections (createConnection (createConnection s f fp t tp) f fp t tp))
        f fp t tp) = 1"
    by (simp add: createConnection_connections incoming_def) (simp add: with_tuple_def)
  have "with_tuple (connections (createConnection s f fp t tp)) f fp t tp \<noteq> []"
    using free by (simp add: createConnection_connections with_tuple_def)
  then have "list_ex (\<lambda>conn. fromNode conn = f \<and> fromPin conn = fp \<and> toNode conn = t \<and>
                          toPin conn = tp) (connections (createConnection s f fp t tp))"
    by (auto simp: with_tuple_def list_ex_iff filter_empty_conv)
  then show "createConnection (createConnection s f fp t tp) f fp t tp = createConnection s f fp t tp"
    by (simp add: createConnection_def [of "createConnection s f fp t tp"])
next
  assume "incoming (connections s) t tp \<noteq> []"
  then show "connections (createConnection (createConnection s f fp t tp) f fp t tp) = connections s"
    by (simp add: createConnection_connections)
qed

theorem createConnection_twice_witness:
  "incoming (connections two_numbers_print) 2 0 = [] \<and>
   length (with_tuple (connections (createConnection (createConnection two_numbers_print 0 0 2 0) 0 0 2 0)) 0 0 2 0) = 1 \<and>
   incoming (connections (createConnection two_numbers_print 0 0 2 0)) 2 0 \<noteq> [] \<and>
   connections (createConnection (createConnection (createConnection two_numbers_print 0 0 2 0) 1 0 2 0) 1 0 2 0) =
     connections (createConnection two_numbers_print 0 0 2 0)"
proof -
  have h1: "incoming (connections two_numbers_print) 2 0 = []"
    by (simp add: two_numbers_print_def addNode_def Node_def createElement_def getNodeInfo_def
      nodeTypes_get_def nodeTypes_def NodeEditor_def incoming_def)
  have h2: "incoming (connections (createConnection two_numbers_print 0 0 2 0)) 2 0 \<noteq> []"
    using h1 by (simp add: createConnection_connections) (simp add: incoming_def)
  show ?thesis
    using h1 h2 createConnection_twice [of two_numbers_print 0 0 2 0]
      createConnection_twice [of "createConnection two_numbers_print 0 0 2 0" 1 0 2 0]
    by blast
qed

subsection \<open>Connections of a node to itself\<close>

text \<open>
  C8, as stated, fails for \<open>createConnection\<close>, which does not compare its two nodes: called
  with the output and an input of one math node it stores the self-loop.
\<close>

theorem createConnection_self_loop_counterexample:
  "\<not> no_self_loop (connections (createConnection one_math 0 0 0 0))"
  by (simp add: one_math_def addNode_def Node_def createElement_def getNodeInfo_def
      nodeTypes_get_def nodeTypes_def NodeEditor_def createConnection_def no_self_loop_def object_def)

lemma no_self_loop_createConnection:
  "no_self_loop (connections s) \<Longrightarrow> f \<noteq> t \<Longrightarrow> no_self_loop (connections (createConnection s f fp t tp))"
  by (simp add: createConnection_connections no_self_loop_def)

lemma endConnection_no_self_loop_step:
  "no_self_loop (connections s) \<Longrightarrow> no_self_loop (connections (endConnection s tgt))"
  by (auto simp: endConnection_def Let_def no_self_loop_createConnection
      split: bool.splits option.splits target.splits)

lemma startConnection_connections [simp]: "connections (startConnection s n pt i) = connections s"
  by (simp add: startConnection_def)

lemma connectGestures_no_self_loop:
  "no_self_loop (connections s) \<Longrightarrow> no_self_loop (connections (connectGestures s gs))"
proof (induction s gs rule: connectGestures.induct)
  case (1 s)
  then show ?case by simp
next
  case (2 s n pt i tgt rest)
  have "no_self_loop (connections (endConnection (startConnection s n pt i) tgt))"
    using 2(2) by (intro endConnection_no_self_loop_step) simp
  then show ?case using 2(1) by simp
qed

text \<open>
  C8 (amended). The check for distinct nodes is made by \<open>endConnection\<close>: after any sequence
  of connection gestures on a graph without a self-loop every connection has \<open>fromNode\<close>
  distinct from \<open>toNode\<close>, and a release on a connector of the node on which the gesture
  started creates no connection.
\<close>

theorem endConnection_no_self_loop:
  "(no_self_loop (connections s) \<longrightarrow> no_self_loop (connections (connectGestures s gs))) \<and>
   connections (endConnection (startConnection s' n pt i) (PinConnector n pt' i')) = connections s'"
  by (simp add: connectGestures_no_self_loop) (simp add: endConnection_def startConnection_def)

theorem endConnection_no_self_loop_witness:
  "no_self_loop (connections two_numbers_print) \<and>
   no_self_loop (connections (connectGestures two_numbers_print
     [((0, Output, 0), PinConnector 2 Input 0), ((2, Input, 0), PinConnector 2 Output 0)])) \<and>
   connections (connectGestures two_numbers_print
     [((0, Output, 0), PinConnector 2 Input 0), ((2, Input, 0), PinConnector 2 Output 0)]) \<noteq> []"
proof -
  have h: "no_self_loop (connections two_numbers_print)"
    by (simp add: two_numbers_print_def addNode_def Node_def createElement_def getNodeInfo_def
      nodeTypes_get_def nodeTypes_def NodeEditor_def no_self_loop_def)
  have "connections (connectGestures two_numbers_print
     [((0, Output, 0), PinConnector 2 Input 0), ((2, Input, 0), PinConnector 2 Output 0)]) \<noteq> []"
    by (simp add: two_numbers_print_def addNode_def Node_def createElement_def getNodeInfo_def
      nodeTypes_get_def nodeTypes_def NodeEditor_def endConnection_def startConnection_def createConnection_def)
  then show ?thesis
    using h endConnection_no_self_loop [of two_numbers_print
      "[((0, Output, 0), PinConnector 2 Input 0), ((2, Input, 0), PinConnector 2 Output 0)]"]
    by blast
qed

subsection \<open>Deleting a node\<close>

lemmas example_defs = two_numbers_print_def one_math_def number_to_print_def cycle_graph_def
  hazard_graph_def addNode_def Node_def
  createElement_def getNodeInfo_def nodeTypes_get_def nodeTypes_def NodeEditor_def
  createConnection_def log_line_def object_def

text \<open>
  C2. Cascade delete: after \<open>deleteNode\<close> of a node of the graph no remaining connection has
  that node as \<open>fromNode\<close> or as \<open>toNode\<close>. On a graph whose connections all join nodes of
  the node list this holds for every reference (for one that is not in the list the call
  returns at once), the node is gone from the list, and the connections still all join nodes
  of the list.
\<close>

theorem deleteNode_cascade:
  "(n \<in> set (nodes s) \<longrightarrow>
      (\<forall>conn \<in> set (connections (deleteNode s n)). \<not> references conn n)) \<and>
   (referential_integrity s \<longrightarrow>
      (\<forall>conn \<in> set (connections (deleteNode s n)). \<not> references conn n) \<and>
      n \<notin> set (nodes (deleteNode s n)) \<and>
      referential_integrity (deleteNode s n))"
  by (auto simp: deleteNode_def deselectAll_def references_def referential_integrity_def
      list_all_iff)

theorem deleteNode_cascade_witness:
  "2 \<in> set (nodes number_to_print) \<and> referential_integrity number_to_print \<and>
   connections number_to_print \<noteq> [] \<and>
   list_all (\<lambda>conn. \<not> references conn 2) (connections (deleteNode number_to_print 2)) \<and>
   referential_integrity (deleteNode number_to_print 2)"
proof -
  have h1: "2 \<in> set (nodes number_to_print)"
    by (simp add: example_defs)
  have h2: "referential_integrity number_to_print"
    by (simp add: example_defs referential_integrity_def)
  have h3: "connections number_to_print \<noteq> []"
    by (simp add: example_defs)
  show ?thesis
    using h1 h2 h3 deleteNode_cascade [of 2 number_to_print] by (simp add: list_all_iff)
qed

subsection \<open>Compute of a math node\<close>

lemma getOutput_assign0 [simp]: "getOutput (n\<lparr>outputValues := assign0 ov v\<rparr>) 0 = v"
  by (cases ov) (simp_all add: getOutput_def)

lemma getNodeInputs_unconnected:
  "filter (\<lambda>conn. toNode conn = r) (connections s) = [] \<Longrightarrow> getNodeInputs s r = (\<lambda>index. Undefined)"
  by (simp add: getNodeInputs_def)

text \<open>
  C3. For a math node, \<open>execute\<close> reads only \<open>inputs[0]\<close> and \<open>inputs[1]\<close>, and an undefined
  one counts as the node's own \<open>valueA\<close> or \<open>valueB\<close> coerced to a number with default 0.
  With \<open>valueA = 3\<close>, \<open>valueB = 4\<close>, operation \<open>add\<close> and no incoming connection the output is 7
  (the runtime represents 7 exactly). With operation \<open>divide\<close> and a divisor that is the
  number 0, connected or inline, the output is the number 0, whatever the dividend.
\<close>

theorem math_execute:
  assumes "node_type n = ''math''"
  shows "execute rt n ins = execute rt n (math_inputs rt n ins) \<and>
    (ins 0 = ins' 0 \<and> ins 1 = ins' 1 \<longrightarrow> execute rt n ins = execute rt n ins') \<and>
    (config n ''valueA'' = Num (Fin 3) \<and> config n ''valueB'' = Num (Fin 4) \<and>
       config n ''operation'' = Str ''add'' \<and> round64 rt 7 = Fin 7 \<and>
       filter (\<lambda>conn. toNode conn = r) (connections s) = [] \<longrightarrow>
       getOutput (fst (execute rt n (getNodeInputs s r))) 0 = Num (Fin 7)) \<and>
    (config n ''operation'' = Str ''divide'' \<and>
       (ins 1 = Num (Fin 0) \<or>
        ins 1 = Undefined \<and> parseFloat_or_0 rt (config n ''valueB'') = Fin 0) \<longrightarrow>
       getOutput (fst (execute rt n ins)) 0 = Num (Fin 0))"
proof (intro conjI)
  show "execute rt n ins = execute rt n (math_inputs rt n ins)"
    using assms by (simp add: execute_def math_inputs_def Let_def)
  show "ins 0 = ins' 0 \<and> ins 1 = ins' 1 \<longrightarrow> execute rt n ins = execute rt n ins'"
    using assms by (simp add: execute_def Let_def)
  show "config n ''valueA'' = Num (Fin 3) \<and> config n ''valueB'' = Num (Fin 4) \<and>
         config n ''operation'' = Str ''add'' \<and> round64 rt 7 = Fin 7 \<and>
         filter (\<lambda>conn. toNode conn = r) (connections s) = [] \<longrightarrow>
         getOutput (fst (execute rt n (getNodeInputs s r))) 0 = Num (Fin 7)"
    using assms
    by (simp add: getNodeInputs_unconnected execute_def Let_def math_result_def js_add_def
        parseFloat_or_0_def)
  show "config n ''operation'' = Str ''divide'' \<and>
         (ins 1 = Num (Fin 0) \<or>
          ins 1 = Undefined \<and> parseFloat_or_0 rt (config n ''valueB'') = Fin 0) \<longrightarrow>
         getOutput (fst (execute rt n ins)) 0 = Num (Fin 0)"
    using assms by (auto simp: execute_def Let_def math_result_def)
qed

theorem math_execute_witness:
  "node_type (math_3_4 ''add'') = ''math'' \<and>
   round64 exact_runtime 7 = Fin 7 \<and>
   filter (\<lambda>conn. toNode conn = 0) (connections one_math) = [] \<and>
   getOutput (fst (execute exact_runtime (math_3_4 ''add'') (getNodeInputs one_math 0))) 0
     = Num (Fin 7) \<and>
   node_type (math_3_0 ''divide'') = ''math'' \<and>
   parseFloat_or_0 exact_runtime (config (math_3_0 ''divide'') ''valueB'') = Fin 0 \<and>
   getOutput (fst (execute exact_runtime (math_3_0 ''divide'') (\<lambda>index. Undefined))) 0
     = Num (Fin 0)"
proof -
  have t1: "node_type (math_3_4 ''add'') = ''math''"
    by (simp add: math_3_4_def)
  have c1: "config (math_3_4 ''add'') ''valueA'' = Num (Fin 3) \<and>
      config (math_3_4 ''add'') ''valueB'' = Num (Fin 4) \<and>
      config (math_3_4 ''add'') ''operation'' = Str ''add''"
    by (simp add: math_3_4_def object_def)
  have r1: "round64 exact_runtime 7 = Fin 7"
    by (simp add: exact_runtime_def)
  have u1: "filter (\<lambda>conn. toNode conn = 0) (connections one_math) = []"
    by (simp add: example_defs)
  have t2: "node_type (math_3_0 ''divide'') = ''math''"
    by (simp add: math_3_0_def math_3_4_def)
  have c2: "config (math_3_0 ''divide'') ''operation'' = Str ''divide''"
    by (simp add: math_3_0_def object_def)
  have d2: "parseFloat_or_0 exact_runtime (config (math_3_0 ''divide'') ''valueB'') = Fin 0"
    by (simp add: math_3_0_def object_def parseFloat_or_0_def)
  have a: "getOutput (fst (execute exact_runtime (math_3_4 ''add'') (getNodeInputs one_math 0))) 0
      = Num (Fin 7)"
    using c1 r1 u1
      math_execute [OF t1, of exact_runtime "\<lambda>index. Undefined" "\<lambda>index. Undefined" 0 one_math]
    by blast
  have b: "getOutput (fst (execute exact_runtime (math_3_0 ''divide'') (\<lambda>index. Undefined))) 0
      = Num (Fin 0)"
    using c2 d2
      math_execute [OF t2, of exact_runtime "\<lambda>index. Undefined" "\<lambda>index. Undefined" 0 one_math]
    by blast
  show ?thesis
    using t1 r1 u1 a t2 d2 b by blast
qed

text \<open>
  The guard compares with the number 0 only. A string that converts to zero, which a string
  node can deliver since pin types are not checked when connecting, is divided by.
\<close>

lemma math_divide_by_string:
  assumes "node_type n = ''math''" "config n ''operation'' = Str ''divide''"
    and "ins 0 = Num (Fin 5)" "ins 1 = Str ''0''" "stringToNumber rt ''0'' = Fin 0"
  shows "getOutput (fst (execute rt n ins)) 0 = Num PInf"
  using assms
  by (simp add: execute_def Let_def math_result_def js_div_def signed_inf_def)

subsection \<open>Unknown node types\<close>

text \<open>
  C9. The fallback \<open>nodeTypes[this.type] || nodeTypes.number\<close> misses the type strings that
  name a member of \<open>Object.prototype\<close>: for \<open>constructor\<close> the lookup finds the inherited
  function, no fallback happens, \<open>createInputs\<close> reads \<open>length\<close> of a missing \<open>inputs\<close>, and
  the constructor throws. \<open>addNode\<close> then adds nothing.
\<close>

theorem Node_inherited_key_throws:
  "Node i ''constructor'' cfg = Inl TypeError \<and>
   addNode NodeEditor ''constructor'' cfg = (NodeEditor\<lparr>nodeIdCounter := 1\<rparr>, Some TypeError)"
  by (simp add: Node_def createElement_def getNodeInfo_def nodeTypes_get_def nodeTypes_def
      Object_prototype_keys_def addNode_def NodeEditor_def)

text \<open>
  Every inherited key behaves so. For any other type string outside the four known ones the
  fallback applies: the node gets the pins of a number node, and \<open>execute\<close>, which has no
  case for the type, leaves the node as it is and logs nothing.
\<close>

lemma Node_inherited_keys_throw:
  "type \<in> set Object_prototype_keys \<Longrightarrow> Node i type cfg = Inl TypeError"
  by (auto simp: Node_def createElement_def getNodeInfo_def nodeTypes_get_def nodeTypes_def
      Object_prototype_keys_def)

lemma Node_unknown_type_fallback:
  assumes "type \<notin> set known_types" "type \<notin> set Object_prototype_keys"
  shows "getNodeInfo type = getNodeInfo ''number''"
    and "Node i type cfg = Inr \<lparr>node_id = i, node_type = type, config = cfg,
           element = \<lparr>header = title_number, input_pins = [], output_pins = [name_value]\<rparr>,
           outputValues = []\<rparr>"
    and "node_type n = type \<Longrightarrow> execute rt n ins = (n, [])"
  using assms
  by (auto simp: Node_def createElement_def getNodeInfo_def nodeTypes_get_def nodeTypes_def
      known_types_def execute_def)

subsection \<open>Graph execution\<close>

lemma execute_outputs_only:
  "fst (execute rt n ins) = n\<lparr>outputValues := outputValues (fst (execute rt n ins))\<rparr>"
  by (simp add: execute_def Let_def)

lemma only_outputs_differ_refl: "only_outputs_differ s s"
  by (simp add: only_outputs_differ_def)

lemma only_outputs_differ_trans:
  assumes "only_outputs_differ s s'" "only_outputs_differ s' s''"
  shows "only_outputs_differ s s''"
proof -
  from assms obtain l1 l2 where l: "outputDiv s' = outputDiv s @ l1" "outputDiv s'' = outputDiv s' @ l2"
    by (auto simp: only_outputs_differ_def)
  have e1: "s' = s\<lparr>store := store s', outputDiv := outputDiv s'\<rparr>"
    and e2: "s'' = s'\<lparr>store := store s'', outputDiv := outputDiv s''\<rparr>"
    using assms by (auto simp: only_outputs_differ_def)
  have "s'' = s\<lparr>store := store s'', outputDiv := outputDiv s''\<rparr>"
    by (subst e2, subst e1) simp
  moreover have "\<forall>x. store s'' x = (store s x)\<lparr>outputValues := outputValues (store s'' x)\<rparr>"
  proof
    fix x
    have a: "store s' x = (store s x)\<lparr>outputValues := outputValues (store s' x)\<rparr>"
      and b: "store s'' x = (store s' x)\<lparr>outputValues := outputValues (store s'' x)\<rparr>"
      using assms by (auto simp: only_outputs_differ_def)
    show "store s'' x = (store s x)\<lparr>outputValues := outputValues (store s'' x)\<rparr>"
      by (subst b, subst a) simp
  qed
  moreover have "\<exists>lines. outputDiv s'' = outputDiv s @ lines"
    using l by simp
  ultimately show ?thesis by (simp add: only_outputs_differ_def)
qed

lemma advances_refl: "advances r r"
  by (simp add: advances_def only_outputs_differ_refl)

lemma advances_trans:
  assumes "advances r r'" "advances r' r''"
  shows "advances r r''"
proof -
  from assms obtain n1 n2 where
    n1: "calls r' = calls r @ n1" "distinct (map fst n1)" "set (map fst n1) = executed r' - executed r"
    and n2: "calls r'' = calls r' @ n2" "distinct (map fst n2)" "set (map fst n2) = executed r'' - executed r'"
    by (auto simp: advances_def)
  have sub: "executed r \<subseteq> executed r'" "executed r' \<subseteq> executed r''"
    using assms by (auto simp: advances_def)
  have "calls r'' = calls r @ (n1 @ n2)" using n1 n2 by simp
  moreover have "distinct (map fst (n1 @ n2))"
    using n1 n2 by auto
  moreover have "set (map fst (n1 @ n2)) = executed r'' - executed r"
    using n1 n2 sub by auto
  ultimately have c: "\<exists>new. calls r'' = calls r @ new \<and> distinct (map fst new) \<and>
            set (map fst new) = executed r'' - executed r"
    by blast
  have st: "\<forall>x. x \<notin> executed r'' - executed r \<longrightarrow> store (this r'') x = store (this r) x"
    using assms sub by (auto simp: advances_def)
  have "only_outputs_differ (this r) (this r'')"
    using assms only_outputs_differ_trans by (auto simp: advances_def)
  with c st sub show ?thesis
    by (auto simp: advances_def)
qed

lemma executeNode_body_advances:
  assumes "n \<notin> executed r"
  shows "advances r (executeNode_body rt n r)"
proof -
  obtain n' lines where ex: "execute rt (store (this r) n) (getNodeInputs (this r) n) = (n', lines)"
    by (cases "execute rt (store (this r) n) (getNodeInputs (this r) n)")
  have n': "n' = (store (this r) n)\<lparr>outputValues := outputValues n'\<rparr>"
    using execute_outputs_only [of rt "store (this r) n" "getNodeInputs (this r) n"] ex by simp
  have c: "executeNode_body rt n r = r\<lparr>this := (this r)\<lparr>store := (store (this r))(n := n'),
                         outputDiv := outputDiv (this r) @ lines\<rparr>,
            executed := insert n (executed r), calls := calls r @ [(n, getNodeInputs (this r) n)]\<rparr>"
    by (simp add: executeNode_body_def Let_def ex)
  have "only_outputs_differ (this r) (this (executeNode_body rt n r))"
    unfolding c only_outputs_differ_def using n' by auto
  then show ?thesis
    unfolding advances_def using assms by (auto simp: c)
qed

lemma executeNode_body_fields [simp]:
  "connections (this (executeNode_body rt n r)) = connections (this r)"
  "nodes (this (executeNode_body rt n r)) = nodes (this r)"
  "executed (executeNode_body rt n r) = insert n (executed r)"
  by (simp_all add: executeNode_body_def Let_def split: prod.splits)

lemma executeNode_advances:
  "executeNode k rt n r = Some r' \<Longrightarrow> advances r r'"
  "executeEach k rt conns r = Some r' \<Longrightarrow> advances r r'"
proof (induction k rt n r and k rt conns r arbitrary: r' and r' rule: executeNode_executeEach.induct)
  case (1 rt n r)
  then show ?case by simp
next
  case (2 depth rt n r)
  show ?case
  proof (cases "n \<in> executed r")
    case True
    with 2(2) show ?thesis by (simp add: advances_refl)
  next
    case False
    with 2(2) have "executeEach depth rt (filter (\<lambda>conn. fromNode conn = n)
        (connections (this (executeNode_body rt n r)))) (executeNode_body rt n r) = Some r'"
      by (simp add: Let_def)
    then have "advances (executeNode_body rt n r) r'"
      using 2(1) [OF False refl] by blast
    with executeNode_body_advances [OF False] show ?thesis
      using advances_trans by blast
  qed
next
  case (3 depth rt r)
  then show ?case by (simp add: advances_refl)
next
  case (4 depth rt conn conns r)
  from 4(3) obtain r1 where r1: "executeNode depth rt (toNode conn) r = Some r1"
    and rest: "executeEach depth rt conns r1 = Some r'"
    by (auto split: option.splits)
  have "advances r r1" using 4(1) r1 by blast
  moreover have "advances r1 r'" using 4(2) r1 rest by blast
  ultimately show ?case using advances_trans by blast
qed

lemma executeNode_same_graph:
  assumes "advances r r'"
  shows "connections (this r') = connections (this r)" "nodes (this r') = nodes (this r)"
    "targets (this r') = targets (this r)"
proof -
  have e: "this r' = (this r)\<lparr>store := store (this r'), outputDiv := outputDiv (this r')\<rparr>"
    using assms by (simp add: advances_def only_outputs_differ_def)
  show "connections (this r') = connections (this r)" by (subst e) simp
  show "nodes (this r') = nodes (this r)" by (subst e) simp
  then show "targets (this r') = targets (this r)"
    using \<open>connections (this r') = connections (this r)\<close> by (simp add: targets_def)
qed

lemma finite_targets [simp]: "finite (targets s)"
  by (simp add: targets_def)

lemma card_targets_le: "card (targets s) \<le> length (nodes s) + length (connections s)"
proof -
  have "card (targets s) \<le> card (set (nodes s)) + card (toNode ` set (connections s))"
    unfolding targets_def by (rule card_Un_le)
  also have "\<dots> \<le> length (nodes s) + length (connections s)"
    by (intro add_mono card_length order_trans [OF card_image_le]) simp
  finally show ?thesis .
qed

lemma card_targets_mono:
  "executed r \<subseteq> executed r' \<Longrightarrow> card (targets s - executed r') \<le> card (targets s - executed r)"
  by (intro card_mono) auto

lemma executeNode_terminates:
  "card (targets (this r) - executed r) < k \<Longrightarrow> n \<in> targets (this r) \<Longrightarrow>
     \<exists>r'. executeNode k rt n r = Some r'"
  "card (targets (this r) - executed r) < k \<Longrightarrow> set conns \<subseteq> set (connections (this r)) \<Longrightarrow>
     \<exists>r'. executeEach k rt conns r = Some r'"
proof (induction k rt n r and k rt conns r rule: executeNode_executeEach.induct)
  case (1 rt n r)
  then show ?case by simp
next
  case (2 depth rt n r)
  show ?case
  proof (cases "n \<in> executed r")
    case True
    then show ?thesis by simp
  next
    case False
    let ?r = "executeNode_body rt n r"
    have adv: "advances r ?r" by (rule executeNode_body_advances [OF False])
    have tg: "targets (this ?r) = targets (this r)" by (rule executeNode_same_graph [OF adv])
    have "n \<in> targets (this r) - executed r" using False 2(3) by simp
    then have "card (targets (this r) - insert n (executed r)) < card (targets (this r) - executed r)"
      by (intro psubset_card_mono) auto
    then have "card (targets (this ?r) - executed ?r) < depth"
      using 2(2) tg by simp
    moreover have "set (filter (\<lambda>conn. fromNode conn = n) (connections (this ?r)))
        \<subseteq> set (connections (this ?r))" by auto
    ultimately have "\<exists>r'. executeEach depth rt
        (filter (\<lambda>conn. fromNode conn = n) (connections (this ?r))) ?r = Some r'"
      using 2(1) [OF False refl] by blast
    then show ?thesis using False by (simp add: Let_def)
  qed
next
  case (3 depth rt r)
  then show ?case by simp
next
  case (4 depth rt conn conns r)
  have "toNode conn \<in> targets (this r)"
    using 4(4) by (auto simp: targets_def)
  then obtain r1 where r1: "executeNode depth rt (toNode conn) r = Some r1"
    using 4(1) 4(3) by blast
  have adv: "advances r r1" using r1 by (rule executeNode_advances)
  have "card (targets (this r1) - executed r1) \<le> card (targets (this r) - executed r)"
    using adv executeNode_same_graph(3) [OF adv] card_targets_mono [of r r1 "this r"]
    by (simp add: advances_def)
  then have "card (targets (this r1) - executed r1) < depth" using 4(3) by simp
  moreover have "set conns \<subseteq> set (connections (this r1))"
    using 4(4) executeNode_same_graph(1) [OF adv] by simp
  ultimately obtain r' where "executeEach depth rt conns r1 = Some r'"
    using 4(2) [OF r1] by blast
  then show ?case using r1 by simp
qed

lemma executeNode_deeper:
  "executeNode k rt n r = Some r' \<Longrightarrow> k \<le> k' \<Longrightarrow> executeNode k' rt n r = Some r'"
  "executeEach k rt conns r = Some r' \<Longrightarrow> k \<le> k' \<Longrightarrow> executeEach k' rt conns r = Some r'"
proof (induction k rt n r and k rt conns r arbitrary: r' k' and r' k' rule: executeNode_executeEach.induct)
  case (1 rt n r)
  then show ?case by simp
next
  case (2 depth rt n r)
  from 2(3) obtain d' where k': "k' = Suc d'" and le: "depth \<le> d'"
    by (cases k') auto
  show ?case
  proof (cases "n \<in> executed r")
    case True
    with 2(2) show ?thesis by (simp add: k')
  next
    case False
    with 2(2) have "executeEach depth rt (filter (\<lambda>conn. fromNode conn = n)
        (connections (this (executeNode_body rt n r)))) (executeNode_body rt n r) = Some r'"
      by (simp add: Let_def)
    then have "executeEach d' rt (filter (\<lambda>conn. fromNode conn = n)
        (connections (this (executeNode_body rt n r)))) (executeNode_body rt n r) = Some r'"
      using 2(1) [OF False refl _ le] by blast
    then show ?thesis using False by (simp add: k' Let_def)
  qed
next
  case (3 depth rt r)
  then show ?case by simp
next
  case (4 depth rt conn conns r)
  from 4(3) obtain r1 where r1: "executeNode depth rt (toNode conn) r = Some r1"
    and rest: "executeEach depth rt conns r1 = Some r'"
    by (auto split: option.splits)
  have "executeNode k' rt (toNode conn) r = Some r1" using 4(1) r1 4(4) by blast
  moreover have "executeEach k' rt conns r1 = Some r'" using 4(2) r1 rest 4(4) by blast
  ultimately show ?case by simp
qed

lemma executeNode_marks:
  assumes "executeNode k rt n r = Some r'"
  shows "n \<in> executed r'"
proof -
  have "advances r r'" using assms by (rule executeNode_advances)
  then have sub: "executed r \<subseteq> executed r'" by (simp add: advances_def)
  obtain d where k: "k = Suc d" using assms by (cases k) auto
  show ?thesis
  proof (cases "n \<in> executed r")
    case True
    then show ?thesis using sub by blast
  next
    case False
    then have "executeEach d rt (filter (\<lambda>conn. fromNode conn = n)
        (connections (this (executeNode_body rt n r)))) (executeNode_body rt n r) = Some r'"
      using assms by (simp add: k Let_def)
    then have "advances (executeNode_body rt n r) r'" by (rule executeNode_advances)
    then show ?thesis by (auto simp: advances_def)
  qed
qed

lemma executeNode_within:
  "executeNode k rt n r = Some r' \<Longrightarrow>
     executed r' \<subseteq> executed r \<union> insert n (toNode ` set (connections (this r)))"
  "executeEach k rt conns r = Some r' \<Longrightarrow> set conns \<subseteq> set (connections (this r)) \<Longrightarrow>
     executed r' \<subseteq> executed r \<union> toNode ` set (connections (this r))"
proof (induction k rt n r and k rt conns r arbitrary: r' and r' rule: executeNode_executeEach.induct)
  case (1 rt n r)
  then show ?case by simp
next
  case (2 depth rt n r)
  show ?case
  proof (cases "n \<in> executed r")
    case True
    with 2(2) show ?thesis by auto
  next
    case False
    let ?r = "executeNode_body rt n r"
    from False 2(2) have "executeEach depth rt (filter (\<lambda>conn. fromNode conn = n)
        (connections (this ?r))) ?r = Some r'"
      by (simp add: Let_def)
    then have "executed r' \<subseteq> executed ?r \<union> toNode ` set (connections (this ?r))"
      using 2(1) [OF False refl] by auto
    then show ?thesis by auto
  qed
next
  case (3 depth rt r)
  then show ?case by simp
next
  case (4 depth rt conn conns r)
  from 4(3) obtain r1 where r1: "executeNode depth rt (toNode conn) r = Some r1"
    and rest: "executeEach depth rt conns r1 = Some r'"
    by (auto split: option.splits)
  have adv: "advances r r1" using r1 by (rule executeNode_advances)
  have c: "connections (this r1) = connections (this r)" by (rule executeNode_same_graph [OF adv])
  have a: "executed r1 \<subseteq> executed r \<union> insert (toNode conn) (toNode ` set (connections (this r)))"
    using 4(1) r1 by blast
  have b: "executed r' \<subseteq> executed r1 \<union> toNode ` set (connections (this r1))"
    using 4(2) [OF r1 rest] 4(4) c by simp
  have "toNode conn \<in> toNode ` set (connections (this r))" using 4(4) by auto
  with a b c show ?case by auto
qed

lemma executeAll_advances:
  "executeAll k rt ns r = Some r' \<Longrightarrow> advances r r'"
proof (induction ns arbitrary: r)
  case Nil
  then show ?case by (simp add: advances_refl)
next
  case (Cons n ns)
  show ?case
  proof (cases "n \<in> executed r")
    case True
    with Cons show ?thesis by simp
  next
    case False
    with Cons.prems obtain r1 where r1: "executeNode k rt n r = Some r1"
      and rest: "executeAll k rt ns r1 = Some r'"
      by (auto split: option.splits)
    show ?thesis
      using executeNode_advances(1) [OF r1] Cons.IH [OF rest] advances_trans by blast
  qed
qed

lemma executeAll_covers:
  "executeAll k rt ns r = Some r' \<Longrightarrow> set ns \<subseteq> executed r'"
proof (induction ns arbitrary: r)
  case Nil
  then show ?case by simp
next
  case (Cons n ns)
  show ?case
  proof (cases "n \<in> executed r")
    case True
    with Cons.prems have rest: "executeAll k rt ns r = Some r'" by simp
    have "executed r \<subseteq> executed r'"
      using executeAll_advances [OF rest] by (simp add: advances_def)
    with True Cons.IH [OF rest] show ?thesis by auto
  next
    case False
    with Cons.prems obtain r1 where r1: "executeNode k rt n r = Some r1"
      and rest: "executeAll k rt ns r1 = Some r'"
      by (auto split: option.splits)
    have "executed r1 \<subseteq> executed r'"
      using executeAll_advances [OF rest] by (simp add: advances_def)
    with executeNode_marks [OF r1] Cons.IH [OF rest] show ?thesis by auto
  qed
qed

lemma executeAll_within:
  "executeAll k rt ns r = Some r' \<Longrightarrow>
     executed r' \<subseteq> executed r \<union> set ns \<union> toNode ` set (connections (this r))"
proof (induction ns arbitrary: r)
  case Nil
  then show ?case by simp
next
  case (Cons n ns)
  show ?case
  proof (cases "n \<in> executed r")
    case True
    with Cons show ?thesis by auto
  next
    case False
    with Cons.prems obtain r1 where r1: "executeNode k rt n r = Some r1"
      and rest: "executeAll k rt ns r1 = Some r'"
      by (auto split: option.splits)
    have c: "connections (this r1) = connections (this r)"
      by (rule executeNode_same_graph [OF executeNode_advances(1) [OF r1]])
    show ?thesis
      using executeNode_within(1) [OF r1] Cons.IH [OF rest] c by auto
  qed
qed

lemma executeAll_terminates:
  "card (targets (this r) - executed r) < k \<Longrightarrow> set ns \<subseteq> targets (this r) \<Longrightarrow>
     \<exists>r'. executeAll k rt ns r = Some r'"
proof (induction ns arbitrary: r)
  case Nil
  then show ?case by simp
next
  case (Cons n ns)
  show ?case
  proof (cases "n \<in> executed r")
    case True
    with Cons show ?thesis by simp
  next
    case False
    obtain r1 where r1: "executeNode k rt n r = Some r1"
      using executeNode_terminates(1) [of r k n rt] Cons.prems by auto
    have adv: "advances r r1" using r1 by (rule executeNode_advances)
    have "card (targets (this r1) - executed r1) \<le> card (targets (this r) - executed r)"
      using adv executeNode_same_graph(3) [OF adv] card_targets_mono [of r r1 "this r"]
      by (simp add: advances_def)
    moreover have "set ns \<subseteq> targets (this r1)"
      using Cons.prems executeNode_same_graph(3) [OF adv] by simp
    ultimately obtain r' where "executeAll k rt ns r1 = Some r'"
      using Cons.IH [of r1] Cons.prems(1) by auto
    then show ?thesis using False r1 by simp
  qed
qed

lemma executeAll_deeper:
  "executeAll k rt ns r = Some r' \<Longrightarrow> k \<le> k' \<Longrightarrow> executeAll k' rt ns r = Some r'"
proof (induction ns arbitrary: r)
  case Nil
  then show ?case by simp
next
  case (Cons n ns)
  show ?case
  proof (cases "n \<in> executed r")
    case True
    with Cons show ?thesis by simp
  next
    case False
    with Cons.prems obtain r1 where r1: "executeNode k rt n r = Some r1"
      and rest: "executeAll k rt ns r1 = Some r'"
      by (auto split: option.splits)
    show ?thesis
      using False executeNode_deeper(1) [OF r1 Cons.prems(2)] Cons.IH [OF rest Cons.prems(2)]
      by simp
  qed
qed

lemma resetAll_fields [simp]:
  "nodes (resetAll s) = nodes s" "connections (resetAll s) = connections s"
  "targets (resetAll s) = targets s"
  by (simp_all add: resetAll_def targets_def)

lemma log_line_fields [simp]:
  "nodes (log_line s m t) = nodes s" "connections (log_line s m t) = connections s"
  "targets (log_line s m t) = targets s" "store (log_line s m t) = store s"
  by (simp_all add: log_line_def targets_def)

lemma executeGraph_run_terminates:
  assumes "card (targets s) < depth"
  shows "\<exists>r. executeGraph_run depth rt s = Some r"
  unfolding executeGraph_run_def Let_def
  using assms by (intro executeAll_terminates) (auto simp: targets_def)

lemma executeGraph_run_advances:
  assumes "executeGraph_run depth rt s = Some r"
  shows "advances \<lparr>this = resetAll (log_line s text_started ''info''), executed = {}, calls = []\<rparr> r"
  using assms unfolding executeGraph_run_def Let_def
  by (auto dest: executeAll_advances)

text \<open>
  C4. Termination and at-most-once execution: for every graph, cycles or not, a run of
  \<open>executeGraph\<close> returns as soon as the nesting allowed for \<open>executeNode\<close> exceeds the number of
  nodes a run can reach, and returns the same with any deeper nesting allowed. In the run no
  node occurs twice among the invocations of \<open>Node.execute\<close>: the nodes computed are exactly
  those in \<open>executed\<close>, which include every node of the node list.
\<close>

theorem executeGraph_terminates_once:
  assumes "card (targets s) < depth"
  shows "\<exists>r. executeGraph_run depth rt s = Some r \<and>
           executeGraph depth rt s = Some (log_line (this r) text_finished ''info'') \<and>
           distinct (map fst (calls r)) \<and>
           set (map fst (calls r)) = executed r \<and>
           set (nodes s) \<subseteq> executed r \<and> executed r \<subseteq> targets s \<and>
           (\<forall>depth'. depth \<le> depth' \<longrightarrow> executeGraph_run depth' rt s = Some r)"
proof -
  obtain r where r: "executeGraph_run depth rt s = Some r"
    using executeGraph_run_terminates [OF assms] by blast
  let ?r0 = "\<lparr>this = resetAll (log_line s text_started ''info''), executed = {}, calls = []\<rparr>"
  have all: "executeAll depth rt (nodes s) ?r0 = Some r"
    using r by (simp add: executeGraph_run_def Let_def)
  have adv: "advances ?r0 r" using r by (rule executeGraph_run_advances)
  then have "distinct (map fst (calls r))" "set (map fst (calls r)) = executed r"
    by (auto simp: advances_def)
  moreover have "set (nodes s) \<subseteq> executed r"
    using executeAll_covers [OF all] .
  moreover have "executed r \<subseteq> targets s"
    using executeAll_within [OF all] by (auto simp: targets_def)
  moreover have "\<forall>depth'. depth \<le> depth' \<longrightarrow> executeGraph_run depth' rt s = Some r"
    using executeAll_deeper [OF all] by (simp add: executeGraph_run_def Let_def)
  moreover have "executeGraph depth rt s = Some (log_line (this r) text_finished ''info'')"
    using r by (simp add: executeGraph_def)
  ultimately show ?thesis using r by blast
qed

theorem executeGraph_terminates_once_witness:
  "card (targets cycle_graph) < 3 \<and>
   (\<exists>r. executeGraph_run 3 exact_runtime cycle_graph = Some r \<and>
      distinct (map fst (calls r)) \<and> set (nodes cycle_graph) \<subseteq> executed r)"
proof -
  have h: "card (targets cycle_graph) < 3"
    by (simp add: example_defs targets_def card_insert_if)
  show ?thesis
    using h executeGraph_terminates_once [OF h, of exact_runtime] by blast
qed

lemmas run_defs = executeGraph_run_def resetAll_def reset_def executeNode_body_def
  getNodeInputs_def execute_def getOutput_def Let_def parseFloat_or_0_def math_result_def
  js_add_def

lemma hazard_run:
  "case executeGraph_run 3 rt hazard_graph of
     None \<Rightarrow> False
   | Some r \<Rightarrow> map fst (calls r) = [0, 1] \<and> snd (calls r ! 0) 0 = Undefined \<and>
       getOutput (store (this r) 1) 0 = Num (Fin 10) \<and>
       getOutput (store (this r) 0) 0 = Num (round64 rt 0)"
  by (simp add: example_defs run_defs numeral_3_eq_3)

text \<open>
  C6. The ordering hazard exists: in \<open>hazard_graph\<close> the math node precedes the number node
  in the node list and the number's output is connected to input A of the math node. The run
  computes the math node first, with \<open>undefined\<close> at that input, and the number node after it;
  at the end the number's output is 10 while the math node's output is the rounded sum of
  its two defaults, 0 + 0.
\<close>

theorem executeGraph_order_hazard:
  "nodes hazard_graph = [0, 1] \<and>
   with_tuple (connections hazard_graph) 1 0 0 0 = connections hazard_graph \<and>
   connections hazard_graph \<noteq> [] \<and>
   (\<exists>r ins ins'. executeGraph_run 3 rt hazard_graph = Some r \<and>
      calls r = [(0, ins), (1, ins')] \<and> ins 0 = Undefined \<and>
      getOutput (store (this r) 1) 0 = Num (Fin 10) \<and>
      getOutput (store (this r) 0) 0 = Num (round64 rt 0))"
proof -
  obtain r where r: "executeGraph_run 3 rt hazard_graph = Some r"
    and c: "map fst (calls r) = [0, 1]" "snd (calls r ! 0) 0 = Undefined"
      "getOutput (store (this r) 1) 0 = Num (Fin 10)"
      "getOutput (store (this r) 0) 0 = Num (round64 rt 0)"
    using hazard_run [of rt] by (auto split: option.splits)
  from c(1) obtain c0 c1 where cs: "calls r = [c0, c1]" "fst c0 = 0" "fst c1 = 1"
    by (auto simp: map_eq_Cons_conv)
  then have "calls r = [(0, snd c0), (1, snd c1)]"
    by (metis prod.collapse)
  moreover have "snd c0 0 = Undefined" using c(2) cs by simp
  moreover have "nodes hazard_graph = [0, 1]" by (simp add: example_defs)
  moreover have "with_tuple (connections hazard_graph) 1 0 0 0 = connections hazard_graph"
    "connections hazard_graph \<noteq> []"
    by (simp_all add: example_defs with_tuple_def)
  ultimately show ?thesis using r c(3,4) by blast
qed

lemma reset_reset [simp]: "reset (reset n) = reset n"
  by (simp add: reset_def)

lemma fold_reset:
  "fold (\<lambda>n h. h(n := reset (h n))) ns h = (\<lambda>x. if x \<in> set ns then reset (h x) else h x)"
proof (induction ns arbitrary: h)
  case Nil
  then show ?case by simp
next
  case (Cons n ns)
  have "fold (\<lambda>n h. h(n := reset (h n))) (n # ns) h =
      fold (\<lambda>n h. h(n := reset (h n))) ns (h(n := reset (h n)))"
    by simp
  also have "\<dots> = (\<lambda>x. if x \<in> set ns then reset ((h(n := reset (h n))) x)
      else (h(n := reset (h n))) x)"
    by (rule Cons.IH)
  also have "\<dots> = (\<lambda>x. if x \<in> set (n # ns) then reset (h x) else h x)"
    by (rule ext) simp
  finally show ?case .
qed

lemma store_resetAll:
  "store (resetAll s) = (\<lambda>x. if x \<in> set (nodes s) then reset (store s x) else store s x)"
  by (simp add: resetAll_def fold_reset)

lemma only_outputs_differ_start:
  "only_outputs_differ s (resetAll (log_line s m t))"
proof -
  let ?s = "resetAll (log_line s m t)"
  have "?s = s\<lparr>store := store ?s, outputDiv := outputDiv ?s\<rparr>"
    by (simp add: resetAll_def log_line_def)
  moreover have "\<forall>x. store ?s x = (store s x)\<lparr>outputValues := outputValues (store ?s x)\<rparr>"
    by (simp add: store_resetAll reset_def)
  moreover have "\<exists>lines. outputDiv ?s = outputDiv s @ lines"
    by (simp add: resetAll_def log_line_def)
  ultimately show ?thesis
    unfolding only_outputs_differ_def by blast
qed

lemma executeGraph_only_outputs_differ:
  assumes "executeGraph depth rt s = Some s'"
  shows "only_outputs_differ s s'"
proof -
  from assms obtain r where r: "executeGraph_run depth rt s = Some r"
    and s': "s' = log_line (this r) text_finished ''info''"
    by (auto simp: executeGraph_def split: option.splits)
  have "only_outputs_differ (resetAll (log_line s text_started ''info'')) (this r)"
    using executeGraph_run_advances [OF r] by (simp add: advances_def)
  moreover have "only_outputs_differ (this r) s'"
    unfolding s' only_outputs_differ_def by (simp add: log_line_def)
  ultimately show ?thesis
    using only_outputs_differ_start only_outputs_differ_trans by blast
qed

lemma executeGraph_frame_lemma:
  assumes "executeGraph depth rt s = Some s'"
  shows "nodes s' = nodes s" "connections s' = connections s"
proof -
  have "only_outputs_differ s s'" using assms by (rule executeGraph_only_outputs_differ)
  then have e: "s' = s\<lparr>store := store s', outputDiv := outputDiv s'\<rparr>"
    by (simp add: only_outputs_differ_def)
  show "nodes s' = nodes s" by (subst e) simp
  show "connections s' = connections s" by (subst e) simp
qed

text \<open>
  C10. Frame of a run: \<open>executeGraph\<close> leaves the node list, the connection list, both
  counters and the gesture state as they were, as well as the id, type, config and element of
  every node object; the output element keeps its lines and gets further ones at the end.
  Only \<open>outputValues\<close> of node objects change otherwise.
\<close>

theorem executeGraph_frame:
  assumes "executeGraph depth rt s = Some s'"
  shows "nodes s' = nodes s \<and> connections s' = connections s \<and>
    nodeIdCounter s' = nodeIdCounter s \<and> connectionIdCounter s' = connectionIdCounter s \<and>
    selectedNode s' = selectedNode s \<and> connecting s' = connecting s \<and>
    connectionStart s' = connectionStart s \<and>
    (\<forall>x. node_id (store s' x) = node_id (store s x) \<and>
         node_type (store s' x) = node_type (store s x) \<and>
         config (store s' x) = config (store s x) \<and>
         element (store s' x) = element (store s x)) \<and>
    (\<exists>lines. outputDiv s' = outputDiv s @ lines)"
proof -
  have d: "only_outputs_differ s s'" using assms by (rule executeGraph_only_outputs_differ)
  then have e: "s' = s\<lparr>store := store s', outputDiv := outputDiv s'\<rparr>"
    and st: "\<And>x. store s' x = (store s x)\<lparr>outputValues := outputValues (store s' x)\<rparr>"
    and lg: "\<exists>lines. outputDiv s' = outputDiv s @ lines"
    by (auto simp: only_outputs_differ_def)
  have f: "nodes s' = nodes s \<and> connections s' = connections s \<and>
    nodeIdCounter s' = nodeIdCounter s \<and> connectionIdCounter s' = connectionIdCounter s \<and>
    selectedNode s' = selectedNode s \<and> connecting s' = connecting s \<and>
    connectionStart s' = connectionStart s"
    by (subst e, simp)+
  have "\<forall>x. node_id (store s' x) = node_id (store s x) \<and>
         node_type (store s' x) = node_type (store s x) \<and>
         config (store s' x) = config (store s x) \<and>
         element (store s' x) = element (store s x)"
  proof
    fix x
    show "node_id (store s' x) = node_id (store s x) \<and>
         node_type (store s' x) = node_type (store s x) \<and>
         config (store s' x) = config (store s x) \<and>
         element (store s' x) = element (store s x)"
      by (subst st, simp)+
  qed
  with f lg show ?thesis by blast
qed

theorem executeGraph_frame_witness:
  "\<exists>s'. executeGraph 3 exact_runtime cycle_graph = Some s' \<and>
     nodes s' = nodes cycle_graph \<and> connections s' = connections cycle_graph \<and>
     (\<forall>x. config (store s' x) = config (store cycle_graph x)) \<and>
     outputValues (store s' 0) \<noteq> outputValues (store cycle_graph 0)"
proof -
  have "case executeGraph 3 exact_runtime cycle_graph of None \<Rightarrow> False
     | Some s' \<Rightarrow> outputValues (store s' 0) \<noteq> outputValues (store cycle_graph 0)"
    by (simp add: executeGraph_def example_defs run_defs numeral_3_eq_3)
  then obtain s' where s': "executeGraph 3 exact_runtime cycle_graph = Some s'"
    and o: "outputValues (store s' 0) \<noteq> outputValues (store cycle_graph 0)"
    by (auto split: option.splits)
  show ?thesis
    using s' o executeGraph_frame [OF s'] by blast
qed

lemma assign0_assign0 [simp]: "assign0 (assign0 ov v) w = assign0 ov w"
  by (cases ov) simp_all

lemma execute_execute:
  "execute rt (fst (execute rt n ins)) ins' = execute rt n ins'"
  by (simp add: execute_def Let_def)

lemma execute_rewritten:
  "rewritten rt n m \<Longrightarrow> execute rt m ins = execute rt n ins"
  by (auto simp: rewritten_def execute_execute)

lemma rewritten_refl: "rewritten rt n n"
  by (simp add: rewritten_def)

lemma rewritten_trans: "rewritten rt n m \<Longrightarrow> rewritten rt m k \<Longrightarrow> rewritten rt n k"
  by (auto simp: rewritten_def execute_execute)

lemma executeNode_body_store:
  "store (this (executeNode_body rt n r)) =
     (store (this r))(n := fst (execute rt (store (this r) n) (getNodeInputs (this r) n)))"
  by (simp add: executeNode_body_def Let_def split: prod.splits)

lemma executeNode_body_rewritten:
  "rewritten rt (store (this r) x) (store (this (executeNode_body rt n r)) x)"
  by (auto simp: executeNode_body_store rewritten_def)

lemma executeNode_rewritten:
  "executeNode k rt n r = Some r' \<Longrightarrow> rewritten rt (store (this r) x) (store (this r') x)"
  "executeEach k rt conns r = Some r' \<Longrightarrow> rewritten rt (store (this r) x) (store (this r') x)"
proof (induction k rt n r and k rt conns r arbitrary: r' and r' rule: executeNode_executeEach.induct)
  case (1 rt n r)
  then show ?case by simp
next
  case (2 depth rt n r)
  show ?case
  proof (cases "n \<in> executed r")
    case True
    with 2(2) show ?thesis by (simp add: rewritten_refl)
  next
    case False
    with 2(2) have "executeEach depth rt (filter (\<lambda>conn. fromNode conn = n)
        (connections (this (executeNode_body rt n r)))) (executeNode_body rt n r) = Some r'"
      by (simp add: Let_def)
    then have "rewritten rt (store (this (executeNode_body rt n r)) x) (store (this r') x)"
      using 2(1) [OF False refl] by blast
    with executeNode_body_rewritten [of rt r x n] show ?thesis
      using rewritten_trans by blast
  qed
next
  case (3 depth rt r)
  then show ?case by (simp add: rewritten_refl)
next
  case (4 depth rt conn conns r)
  from 4(3) obtain r1 where r1: "executeNode depth rt (toNode conn) r = Some r1"
    and rest: "executeEach depth rt conns r1 = Some r'"
    by (auto split: option.splits)
  show ?case using 4(1) [OF r1] 4(2) [OF r1 rest] rewritten_trans by blast
qed

lemma executeAll_rewritten:
  "executeAll k rt ns r = Some r' \<Longrightarrow> rewritten rt (store (this r) x) (store (this r') x)"
proof (induction ns arbitrary: r)
  case Nil
  then show ?case by (simp add: rewritten_refl)
next
  case (Cons n ns)
  show ?case
  proof (cases "n \<in> executed r")
    case True
    with Cons show ?thesis by simp
  next
    case False
    with Cons.prems obtain r1 where r1: "executeNode k rt n r = Some r1"
      and rest: "executeAll k rt ns r1 = Some r'"
      by (auto split: option.splits)
    show ?thesis
      using executeNode_rewritten(1) [OF r1] Cons.IH [OF rest] rewritten_trans by blast
  qed
qed

lemma getNodeInputs_agree_but:
  assumes "agree_but rt X r1 r2" "X \<inter> fromNode ` set (connections (this r1)) = {}"
  shows "getNodeInputs (this r2) n = getNodeInputs (this r1) n"
proof -
  have c: "connections (this r2) = connections (this r1)"
    using assms(1) by (simp add: agree_but_def)
  have "\<And>conn. conn \<in> set (connections (this r1)) \<Longrightarrow>
      store (this r2) (fromNode conn) = store (this r1) (fromNode conn)"
    using assms by (auto simp: agree_but_def)
  then have "\<And>cs ins. set cs \<subseteq> set (connections (this r1)) \<Longrightarrow>
      fold (\<lambda>conn ins. ins(toPin conn := getOutput (store (this r2) (fromNode conn)) (fromPin conn))) cs ins =
      fold (\<lambda>conn ins. ins(toPin conn := getOutput (store (this r1) (fromNode conn)) (fromPin conn))) cs ins"
    by (intro fold_cong) auto
  then show ?thesis
    by (simp add: getNodeInputs_def c)
qed

lemma executeNode_body_agree_but:
  assumes a: "agree_but rt X r1 r2" and d: "X \<inter> fromNode ` set (connections (this r1)) = {}"
  shows "agree_but rt X (executeNode_body rt n r1) (executeNode_body rt n r2)"
proof -
  have i: "getNodeInputs (this r2) n = getNodeInputs (this r1) n"
    using a d by (rule getNodeInputs_agree_but)
  have "store (this r2) n = store (this r1) n \<or>
      rewritten rt (store (this r1) n) (store (this r2) n)"
    using a unfolding agree_but_def by blast
  then have "rewritten rt (store (this r1) n) (store (this r2) n)"
    using rewritten_refl [of rt "store (this r1) n"] by auto
  then have e: "execute rt (store (this r2) n) (getNodeInputs (this r1) n) =
      execute rt (store (this r1) n) (getNodeInputs (this r1) n)"
    by (rule execute_rewritten)
  show ?thesis
    unfolding agree_but_def executeNode_body_store
    using a by (auto simp: agree_but_def i e)
qed

lemma executeNode_agree_but:
  "agree_but rt X r r2 \<Longrightarrow> X \<inter> fromNode ` set (connections (this r)) = {} \<Longrightarrow>
     rel_option (agree_but rt X) (executeNode k rt n r) (executeNode k rt n r2)"
  "agree_but rt X r r2 \<Longrightarrow> X \<inter> fromNode ` set (connections (this r)) = {} \<Longrightarrow>
     rel_option (agree_but rt X) (executeEach k rt conns r) (executeEach k rt conns r2)"
proof (induction k rt n r and k rt conns r arbitrary: r2 and r2 rule: executeNode_executeEach.induct)
  case (1 rt n r)
  then show ?case by simp
next
  case (2 depth rt n r)
  have ex: "executed r = executed r2" and cn: "connections (this r) = connections (this r2)"
    using 2(2) by (simp_all add: agree_but_def)
  show ?case
  proof (cases "n \<in> executed r")
    case True
    then show ?thesis using 2(2) ex by simp
  next
    case False
    have b: "agree_but rt X (executeNode_body rt n r) (executeNode_body rt n r2)"
      using 2(2,3) by (rule executeNode_body_agree_but)
    have d: "X \<inter> fromNode ` set (connections (this (executeNode_body rt n r))) = {}"
      using 2(3) by simp
    have "rel_option (agree_but rt X)
       (executeEach depth rt (filter (\<lambda>conn. fromNode conn = n)
          (connections (this (executeNode_body rt n r)))) (executeNode_body rt n r))
       (executeEach depth rt (filter (\<lambda>conn. fromNode conn = n)
          (connections (this (executeNode_body rt n r)))) (executeNode_body rt n r2))"
      using 2(1) [OF False refl b d] .
    then show ?thesis using False ex cn by (simp add: Let_def)
  qed
next
  case (3 depth rt r)
  then show ?case by simp
next
  case (4 depth rt conn conns r)
  have h: "rel_option (agree_but rt X) (executeNode depth rt (toNode conn) r)
     (executeNode depth rt (toNode conn) r2)"
    using 4(1) [OF 4(3,4)] .
  show ?case
  proof (cases "executeNode depth rt (toNode conn) r")
    case None
    with h show ?thesis by (cases "executeNode depth rt (toNode conn) r2") simp_all
  next
    case (Some r1)
    with h obtain r1' where r1': "executeNode depth rt (toNode conn) r2 = Some r1'"
      and a: "agree_but rt X r1 r1'"
      by (cases "executeNode depth rt (toNode conn) r2") simp_all
    have "connections (this r1) = connections (this r)"
      by (rule executeNode_same_graph [OF executeNode_advances(1) [OF Some]])
    then have d: "X \<inter> fromNode ` set (connections (this r1)) = {}" using 4(4) by simp
    show ?thesis using 4(2) [OF Some a d] Some r1' by simp
  qed
qed

lemma executeAll_agree_but:
  "agree_but rt X r r2 \<Longrightarrow> X \<inter> fromNode ` set (connections (this r)) = {} \<Longrightarrow>
     rel_option (agree_but rt X) (executeAll k rt ns r) (executeAll k rt ns r2)"
proof (induction ns arbitrary: r r2)
  case Nil
  then show ?case by simp
next
  case (Cons n ns)
  have ex: "executed r = executed r2" using Cons.prems by (simp add: agree_but_def)
  show ?case
  proof (cases "n \<in> executed r")
    case True
    then show ?thesis using Cons ex by simp
  next
    case False
    have h: "rel_option (agree_but rt X) (executeNode k rt n r) (executeNode k rt n r2)"
      using Cons.prems by (rule executeNode_agree_but)
    show ?thesis
    proof (cases "executeNode k rt n r")
      case None
      with h False ex show ?thesis by (cases "executeNode k rt n r2") simp_all
    next
      case (Some r1)
      with h obtain r1' where r1': "executeNode k rt n r2 = Some r1'"
        and a: "agree_but rt X r1 r1'"
        by (cases "executeNode k rt n r2") simp_all
      have "connections (this r1) = connections (this r)"
        by (rule executeNode_same_graph [OF executeNode_advances(1) [OF Some]])
      then have d: "X \<inter> fromNode ` set (connections (this r1)) = {}" using Cons.prems(2) by simp
      show ?thesis using Cons.IH [OF a d] Some r1' False ex by simp
    qed
  qed
qed

lemma executeGraph_again:
  assumes wf: "fromNode ` set (connections s) \<inter> toNode ` set (connections s) \<subseteq> set (nodes s)"
    and s1: "executeGraph depth rt s = Some s1"
  shows "\<exists>s2. executeGraph depth rt s1 = Some s2 \<and> store s2 = store s1"
proof -
  let ?r0 = "\<lparr>this = resetAll (log_line s text_started ''info''), executed = {}, calls = []\<rparr>"
  let ?r0' = "\<lparr>this = resetAll (log_line s1 text_started ''info''), executed = {}, calls = []\<rparr>"
  from s1 obtain r1 where r1: "executeGraph_run depth rt s = Some r1"
    and s1_eq: "s1 = log_line (this r1) text_finished ''info''"
    by (auto simp: executeGraph_def split: option.splits)
  have all: "executeAll depth rt (nodes s) ?r0 = Some r1"
    using r1 by (simp add: executeGraph_run_def Let_def)
  have adv: "advances ?r0 r1" using r1 by (rule executeGraph_run_advances)
  have ns: "nodes s1 = nodes s" and cs: "connections s1 = connections s"
    using executeGraph_frame_lemma [OF s1] by simp_all
  have ns1: "nodes (this r1) = nodes s" using ns by (simp add: s1_eq)
  let ?X = "executed r1 - set (nodes s)"
  have within: "executed r1 \<subseteq> set (nodes s) \<union> toNode ` set (connections s)"
    using executeAll_within [OF all] by auto
  have unread: "?X \<inter> fromNode ` set (connections s) = {}"
    using within wf by auto
  have st: "store (this ?r0') x = store (this ?r0) x \<or>
      x \<in> ?X \<and> rewritten rt (store (this ?r0) x) (store (this ?r0') x)" for x
  proof (cases "x \<in> set (nodes s)")
    case True
    have o: "store (this r1) x = (store (this ?r0) x)\<lparr>outputValues := outputValues (store (this r1) x)\<rparr>"
      using adv by (simp add: advances_def only_outputs_differ_def)
    have "reset (store (this r1) x) = reset (store (this ?r0) x)"
      by (subst o) (simp add: reset_def)
    then show ?thesis using True by (simp add: store_resetAll ns1 s1_eq)
  next
    case False
    then have s0': "store (this ?r0') x = store (this r1) x"
      by (simp add: store_resetAll ns1 s1_eq)
    show ?thesis
    proof (cases "x \<in> executed r1")
      case True
      have "rewritten rt (store (this ?r0) x) (store (this r1) x)"
        using all by (rule executeAll_rewritten)
      with True False s0' show ?thesis by simp
    next
      case False
      then have "x \<notin> executed r1 - executed ?r0" by simp
      then have "store (this r1) x = store (this ?r0) x"
        using adv by (simp add: advances_def)
      with s0' show ?thesis by simp
    qed
  qed
  have "agree_but rt ?X ?r0 ?r0'"
    unfolding agree_but_def using st cs by simp
  moreover have "?X \<inter> fromNode ` set (connections (this ?r0)) = {}"
    using unread by simp
  ultimately have "rel_option (agree_but rt ?X) (executeAll depth rt (nodes s) ?r0)
      (executeAll depth rt (nodes s) ?r0')"
    by (rule executeAll_agree_but)
  then obtain r2 where r2: "executeAll depth rt (nodes s) ?r0' = Some r2"
    and a: "agree_but rt ?X r1 r2"
    using all by (cases "executeAll depth rt (nodes s) ?r0'") simp_all
  have "store (this r2) = store (this r1)"
  proof
    fix x
    show "store (this r2) x = store (this r1) x"
      using a by (auto simp: agree_but_def)
  qed
  then have "store (log_line (this r2) text_finished ''info'') = store s1"
    by (simp add: s1_eq)
  moreover have "executeGraph depth rt s1 = Some (log_line (this r2) text_finished ''info'')"
    using r2 ns by (simp add: executeGraph_def executeGraph_run_def Let_def)
  ultimately show ?thesis by blast
qed

text \<open>
  C7. Running twice: on a graph in which every node that is both the target of a connection
  and the source of one is in the node list (so on every graph whose connections join nodes
  of the list), a second run of \<open>executeGraph\<close> directly after the first returns and leaves on
  every node object the \<open>outputValues\<close> the first run left; the whole object store is the same.
\<close>

theorem executeGraph_idempotent:
  assumes "fromNode ` set (connections s) \<inter> toNode ` set (connections s) \<subseteq> set (nodes s)"
    and "card (targets s) < depth"
  shows "\<exists>s1 s2. executeGraph depth rt s = Some s1 \<and> executeGraph depth rt s1 = Some s2 \<and>
           (\<forall>x. outputValues (store s2 x) = outputValues (store s1 x)) \<and> store s2 = store s1"
proof -
  obtain r where "executeGraph_run depth rt s = Some r"
    using executeGraph_run_terminates [OF assms(2)] by blast
  then obtain s1 where s1: "executeGraph depth rt s = Some s1"
    by (simp add: executeGraph_def)
  obtain s2 where "executeGraph depth rt s1 = Some s2" "store s2 = store s1"
    using executeGraph_again [OF assms(1) s1] by blast
  with s1 show ?thesis by auto
qed

theorem executeGraph_idempotent_witness:
  "fromNode ` set (connections cycle_graph) \<inter> toNode ` set (connections cycle_graph)
     \<subseteq> set (nodes cycle_graph) \<and>
   card (targets cycle_graph) < 3 \<and>
   (\<exists>s1 s2. executeGraph 3 exact_runtime cycle_graph = Some s1 \<and>
      executeGraph 3 exact_runtime s1 = Some s2 \<and>
      (\<forall>x. outputValues (store s2 x) = outputValues (store s1 x)))"
proof -
  have h1: "fromNode ` set (connections cycle_graph) \<inter> toNode ` set (connections cycle_graph)
     \<subseteq> set (nodes cycle_graph)"
    by (simp add: example_defs)
  have h2: "card (targets cycle_graph) < 3"
    by (simp add: example_defs targets_def card_insert_if)
  show ?thesis
    using h1 h2 executeGraph_idempotent [OF h1 h2, of exact_runtime] by blast
qed

end
